theory Spec2Isabelle
  imports Main "HOL-Library.Sublist"
begin

section \<open>The suite runner of \<^verbatim>\<open>suite.go\<close>\<close>

text \<open>
  \<^verbatim>\<open>Run(suiteT, suite)\<close> drives user code (the hooks and the test methods of a suite)
  and talks to Go's \<^verbatim>\<open>testing\<close>, \<^verbatim>\<open>regexp\<close>, \<^verbatim>\<open>reflect\<close> and \<^verbatim>\<open>os\<close> packages. The model
  keeps the text of \<^verbatim>\<open>Run\<close> and \<^verbatim>\<open>methodFilter\<close> and makes their effects explicit:
  \<^item> the suite is a record of what \<^verbatim>\<open>Run\<close> reads from it by reflection and by type
    assertion: the name of its struct type, its method table, and one optional
    action for each of the six hook interfaces;
  \<^item> user code is an action: it reads the current handle (\<^verbatim>\<open>suite.T()\<close>) and the fields
    of the suite, changes the fields, and ends in one of three ways (\<open>outcome\<close>);
  \<^item> the state is the handle stored by \<^verbatim>\<open>SetT\<close>, the fields of the suite, and the trace
    of everything \<^verbatim>\<open>Run\<close> has done so far, in order;
  \<^item> \<^verbatim>\<open>regexp.MatchString\<close> applied to the flag \<^verbatim>\<open>-testify.m\<close> is a parameter of the
    model, returning Go's pair of a boolean and an optional error.
\<close>

subsection \<open>Handles, outcomes, events\<close>

text \<open>
  The \<^verbatim>\<open>*testing.T\<close> values a run sees: the zero value of the field \<^verbatim>\<open>Suite.t\<close>, the
  handle \<^verbatim>\<open>suiteT\<close> given to \<^verbatim>\<open>Run\<close>, and the fresh \<^verbatim>\<open>testT\<close> that \<^verbatim>\<open>suiteT.Run\<close> creates for
  the method at a given index of the method table.
\<close>

datatype handle = NilT | SuiteT | TestT nat

text \<open>
  How a call of user code ends. \<open>Returns\<close>: the call returns (also after \<^verbatim>\<open>t.Fail\<close>,
  \<^verbatim>\<open>t.Error\<close> or a failed assertion, which mark the handle and go on). \<open>Goexits\<close>:
  the code called \<^verbatim>\<open>Skip\<close>, \<^verbatim>\<open>SkipNow\<close>, \<^verbatim>\<open>FailNow\<close> or \<^verbatim>\<open>Fatal\<close> on its handle; these stop
  the calling goroutine with \<^verbatim>\<open>runtime.Goexit\<close>, which runs the deferred calls that are
  already registered and nothing else. \<open>Panics\<close>: an unrecovered panic, which also
  runs the registered deferred calls while it unwinds.
\<close>

datatype outcome = Returns | Goexits | Panics

datatype call =
    SetupSuiteCall
  | TearDownSuiteCall
  | SetupTestCall
  | TearDownTestCall
  | BeforeTestCall string string
  | AfterTestCall string string
  | MethodCall string

text \<open>
  What \<^verbatim>\<open>Run\<close> does, as events: \<open>SetTEv h\<close> is \<^verbatim>\<open>suite.SetT(h)\<close>; \<open>Invoke c h\<close> is a call
  of a hook or of a test method, made while \<^verbatim>\<open>suite.T()\<close> is \<open>h\<close>; \<open>SubRun i n\<close> is
  \<^verbatim>\<open>suiteT.Run(n, ...)\<close> for the method at index \<open>i\<close>; \<open>Fatalf h msg\<close> is \<^verbatim>\<open>h.Fatalf\<close> with
  the formatted message; \<open>Stderr msg\<close> is the \<^verbatim>\<open>fmt.Fprintf(os.Stderr, ...)\<close>; \<open>Exit c\<close>
  is \<^verbatim>\<open>os.Exit(c)\<close>.
\<close>

datatype event =
    SetTEv handle
  | Invoke call handle
  | SubRun nat string
  | Fatalf handle string
  | Stderr string
  | Exit nat

text \<open>How \<^verbatim>\<open>Run\<close> itself ends, seen from the process that called it.\<close>

datatype status =
    Returned
  | Goexited
  | Panicked
  | Crashed
  | Exited nat

subsection \<open>The suite\<close>

type_synonym 's action = "handle \<Rightarrow> 's \<Rightarrow> outcome \<times> 's"

text \<open>
  An entry of the method table (\<^verbatim>\<open>reflect.Method\<close>): \<^verbatim>\<open>method.Name\<close>,
  \<^verbatim>\<open>method.Type.NumIn()\<close> (the receiver counts, so a method without parameters has
  \<open>NumIn = 1\<close>) and \<^verbatim>\<open>method.Func\<close>.
\<close>

record 's suiteMethod =
  Name :: string
  NumIn :: nat
  Func :: "'s action"

text \<open>
  \<open>ElemName\<close> is \<^verbatim>\<open>reflect.TypeOf(suite).Elem().Name()\<close>, \<open>Methods\<close> lists
  \<^verbatim>\<open>reflect.TypeOf(suite).Method(0)\<close>, \<^verbatim>\<open>Method(1)\<close>, ... A hook is \<open>None\<close> when the suite
  does not implement the interface (the type assertion gives \<^verbatim>\<open>ok = false\<close>).
\<close>

record 's suite =
  ElemName :: string
  Methods :: "'s suiteMethod list"
  SetupSuite :: "'s action option"
  TearDownSuite :: "'s action option"
  SetupTest :: "'s action option"
  TearDownTest :: "'s action option"
  BeforeTest :: "(string \<Rightarrow> string \<Rightarrow> 's action) option"
  AfterTest :: "(string \<Rightarrow> string \<Rightarrow> 's action) option"

record 's runState =
  suite_t :: handle
  suite_fields :: 's
  trace :: "event list"

subsection \<open>\<^verbatim>\<open>Suite.T\<close> and \<^verbatim>\<open>Suite.SetT\<close>\<close>

definition Suite_T :: "'s runState \<Rightarrow> handle" where
  "Suite_T st = suite_t st"

definition Suite_SetT :: "handle \<Rightarrow> 's runState \<Rightarrow> 's runState" where
  "Suite_SetT h st = st\<lparr>suite_t := h, trace := trace st @ [SetTEv h]\<rparr>"

subsection \<open>Calling user code\<close>

text \<open>
  A call of user code: the action runs on the current handle and the fields, and the
  call is recorded with the handle it saw. User code does not call \<^verbatim>\<open>SetT\<close>: the holder
  belongs to \<^verbatim>\<open>Run\<close> for the time of the run.
\<close>

definition invoke :: "call \<Rightarrow> 's action \<Rightarrow> 's runState \<Rightarrow> outcome \<times> 's runState" where
  "invoke c f st =
     (case f (Suite_T st) (suite_fields st) of
        (out, s') \<Rightarrow> (out, st\<lparr>suite_fields := s', trace := trace st @ [Invoke c (Suite_T st)]\<rparr>))"

text \<open>\<^verbatim>\<open>if x, ok := suite.(I); ok { x.Hook() }\<close>\<close>

definition invokeOpt :: "call \<Rightarrow> 's action option \<Rightarrow> 's runState \<Rightarrow> outcome \<times> 's runState" where
  "invokeOpt c hook st = (case hook of None \<Rightarrow> (Returns, st) | Some f \<Rightarrow> invoke c f st)"

text \<open>
  Two statements in a row: the second runs only when the first returned; otherwise
  the goroutine is already unwinding.
\<close>

definition andThen ::
  "outcome \<times> 's runState \<Rightarrow> ('s runState \<Rightarrow> outcome \<times> 's runState) \<Rightarrow> outcome \<times> 's runState" where
  "andThen r k = (case r of (out, st) \<Rightarrow> if out = Returns then k st else (out, st))"

text \<open>
  \<^verbatim>\<open>defer d(); rest\<close>: the deferred function runs however the rest ended. When it ends
  by \<^verbatim>\<open>Goexit\<close> or by a panic itself, that is how the goroutine goes on unwinding.
\<close>

definition withDefer ::
  "('s runState \<Rightarrow> outcome \<times> 's runState) \<Rightarrow> outcome \<times> 's runState \<Rightarrow> outcome \<times> 's runState" where
  "withDefer d r =
     (case r of (out, st) \<Rightarrow>
        (case d st of (out', st') \<Rightarrow> (if out' = Returns then out else out', st')))"

subsection \<open>\<^verbatim>\<open>methodFilter\<close>\<close>

text \<open>
  \<^verbatim>\<open>regexp.MatchString("^Test", name)\<close>: the pattern is fixed and valid, and it matches
  exactly the names that begin with \<^verbatim>\<open>Test\<close>.
\<close>

definition matchTestPrefix :: "string \<Rightarrow> bool" where
  "matchTestPrefix name = prefix ''Test'' name"

type_synonym matcher = "string \<Rightarrow> string \<Rightarrow> bool \<times> string option"

definition methodFilter :: "matcher \<Rightarrow> string \<Rightarrow> string \<Rightarrow> bool \<times> string option" where
  "methodFilter MatchString matchMethod name =
     (if \<not> matchTestPrefix name then (False, None)
      else MatchString matchMethod name)"

subsection \<open>\<^verbatim>\<open>Run\<close>\<close>

text \<open>Lines 73 to 77: the method is called only when it takes the receiver alone.\<close>

definition callMethod :: "nat \<Rightarrow> 's suiteMethod \<Rightarrow> 's runState \<Rightarrow> outcome \<times> 's runState" where
  "callMethod index m st =
     (if NumIn m = 1 then invoke (MethodCall (Name m)) (Func m) st
      else (Goexits,
            st\<lparr>trace := trace st @
              [Fatalf (TestT index) (''suite: too many arguments to method '' @ Name m)]\<rparr>))"

text \<open>Lines 63 to 72: the function deferred inside the sub-test.\<close>

definition testDeferred :: "'s suite \<Rightarrow> 's suiteMethod \<Rightarrow> 's runState \<Rightarrow> outcome \<times> 's runState" where
  "testDeferred S m st =
     andThen
       (andThen
          (invokeOpt (AfterTestCall (ElemName S) (Name m))
             (map_option (\<lambda>f. f (ElemName S) (Name m)) (AfterTest S)) st)
          (invokeOpt TearDownTestCall (TearDownTest S)))
       (\<lambda>st. (Returns, Suite_SetT SuiteT st))"

text \<open>Lines 54 to 78: the function given to \<^verbatim>\<open>suiteT.Run\<close>, with \<^verbatim>\<open>testT = TestT index\<close>.\<close>

definition subTest :: "'s suite \<Rightarrow> nat \<Rightarrow> 's suiteMethod \<Rightarrow> 's runState \<Rightarrow> outcome \<times> 's runState" where
  "subTest S index m st =
     andThen
       (andThen
          (invokeOpt SetupTestCall (SetupTest S) (Suite_SetT (TestT index) st))
          (invokeOpt (BeforeTestCall (ElemName S) (Name m))
             (map_option (\<lambda>f. f (ElemName S) (Name m)) (BeforeTest S))))
       (\<lambda>st. withDefer (testDeferred S m) (callMethod index m st))"

text \<open>
  \<^verbatim>\<open>suiteT.Run(name, f)\<close> runs \<open>f\<close> in a goroutine of its own and waits for it. A sub-test
  that returned or stopped with \<^verbatim>\<open>Goexit\<close> gives control back to the caller; a panic that
  leaves \<open>f\<close> is raised again by the test runner and ends the process.
\<close>

definition tRun ::
  "nat \<Rightarrow> string \<Rightarrow> ('s runState \<Rightarrow> outcome \<times> 's runState) \<Rightarrow> 's runState \<Rightarrow> outcome \<times> 's runState" where
  "tRun index name f st = f (st\<lparr>trace := trace st @ [SubRun index name]\<rparr>)"

text \<open>Line 50: the text written to standard error, for the error \<open>err\<close> of the pattern.\<close>

definition exitMessage :: "string \<Rightarrow> string" where
  "exitMessage err = ''testify: invalid regexp for -m: '' @ err @ [CHR 0x0A]"

text \<open>
  Lines 46 to 81: the loop over the method table, from \<open>index\<close> on; \<open>ms\<close> are the
  methods not yet visited. \<^verbatim>\<open>os.Exit\<close> ends the process on the spot: no deferred function
  runs.
\<close>

fun runMethods ::
  "matcher \<Rightarrow> string \<Rightarrow> 's suite \<Rightarrow> nat \<Rightarrow> 's suiteMethod list \<Rightarrow> 's runState \<Rightarrow> status \<times> 's runState" where
  "runMethods MatchString matchMethod S index [] st = (Returned, st)"
| "runMethods MatchString matchMethod S index (m # ms) st =
     (case methodFilter MatchString matchMethod (Name m) of
        (ok, Some err) \<Rightarrow>
          (Exited 1,
           st\<lparr>trace := trace st @
             [Stderr (exitMessage err), Exit 1]\<rparr>)
      | (ok, None) \<Rightarrow>
          if ok then
            (case tRun index (Name m) (subTest S index m) st of
               (out, st') \<Rightarrow>
                 if out = Panics then (Crashed, st')
                 else runMethods MatchString matchMethod S (Suc index) ms (Suite_SetT SuiteT st'))
          else runMethods MatchString matchMethod S (Suc index) ms st)"

text \<open>Lines 38 to 43: the function deferred by \<^verbatim>\<open>Run\<close>.\<close>

definition suiteDeferred :: "'s suite \<Rightarrow> 's runState \<Rightarrow> outcome \<times> 's runState" where
  "suiteDeferred S st = invokeOpt TearDownSuiteCall (TearDownSuite S) (Suite_SetT SuiteT st)"

definition goroutineEnd :: "outcome \<Rightarrow> status" where
  "goroutineEnd out = (case out of Returns \<Rightarrow> Returned | Goexits \<Rightarrow> Goexited | Panics \<Rightarrow> Panicked)"

definition newSuite :: "'s \<Rightarrow> 's runState" where
  "newSuite s = \<lparr>suite_t = NilT, suite_fields = s, trace = []\<rparr>"

text \<open>
  \<^verbatim>\<open>Run\<close>, on a suite whose fields are \<open>s\<close>. The \<^verbatim>\<open>defer\<close> statement of line 38 comes after
  the call of \<^verbatim>\<open>SetupSuite\<close>: when that call does not return, nothing is deferred yet.
\<close>

definition Run :: "matcher \<Rightarrow> string \<Rightarrow> 's suite \<Rightarrow> 's \<Rightarrow> status \<times> 's runState" where
  "Run MatchString matchMethod S s =
     (case invokeOpt SetupSuiteCall (SetupSuite S) (Suite_SetT SuiteT (newSuite s)) of
        (out, st) \<Rightarrow>
          if out \<noteq> Returns then (goroutineEnd out, st)
          else
            (case runMethods MatchString matchMethod S 0 (Methods S) st of
               (stop, st') \<Rightarrow>
                 if stop = Returned then
                   (case suiteDeferred S st' of (out', st'') \<Rightarrow> (goroutineEnd out', st''))
                 else (stop, st')))"

subsection \<open>Reading a trace\<close>

text \<open>What happened on a handle: the calls made while it was current, and its \<^verbatim>\<open>Fatalf\<close>.\<close>

fun onHandle :: "handle \<Rightarrow> event list \<Rightarrow> event list" where
  "onHandle h [] = []"
| "onHandle h (Invoke c h' # es) = (if h' = h then Invoke c h' # onHandle h es else onHandle h es)"
| "onHandle h (Fatalf h' msg # es) = (if h' = h then Fatalf h' msg # onHandle h es else onHandle h es)"
| "onHandle h (e # es) = onHandle h es"

text \<open>The sub-units registered with \<^verbatim>\<open>suiteT.Run\<close>, in order: index in the method table and name.\<close>

fun subUnits :: "event list \<Rightarrow> (nat \<times> string) list" where
  "subUnits [] = []"
| "subUnits (SubRun i n # es) = (i, n) # subUnits es"
| "subUnits (e # es) = subUnits es"

text \<open>The event of an optional hook: nothing when the suite does not implement it.\<close>

definition hookCall :: "call \<Rightarrow> 'a option \<Rightarrow> handle \<Rightarrow> event list" where
  "hookCall c hook h = (case hook of None \<Rightarrow> [] | Some f \<Rightarrow> [Invoke c h])"

text \<open>Lines 73 to 77 as events: the call of the method, or the \<^verbatim>\<open>Fatalf\<close> in its place.\<close>

definition bodyEvent :: "nat \<Rightarrow> 's suiteMethod \<Rightarrow> event" where
  "bodyEvent index m =
     (if NumIn m = 1 then Invoke (MethodCall (Name m)) (TestT index)
      else Fatalf (TestT index) (''suite: too many arguments to method '' @ Name m))"

text \<open>
  The handle that \<^verbatim>\<open>suite.T()\<close> returns after a trace, starting from \<open>h\<close>: the argument of
  the last \<^verbatim>\<open>SetT\<close>.
\<close>

fun handleAfter :: "handle \<Rightarrow> event list \<Rightarrow> handle" where
  "handleAfter h [] = h"
| "handleAfter h (SetTEv h' # es) = handleAfter h' es"
| "handleAfter h (e # es) = handleAfter h es"

definition suiteLevel :: "call \<Rightarrow> bool" where
  "suiteLevel c = (c = SetupSuiteCall \<or> c = TearDownSuiteCall)"

text \<open>
  What an event may be while the current handle is \<open>h\<close>: the suite-level hooks, the
  registration of a sub-unit and the exit of the process happen on \<^verbatim>\<open>suiteT\<close>; the
  per-test hooks, the test method and the \<^verbatim>\<open>Fatalf\<close> happen on the handle of a sub-test.
\<close>

fun okAt :: "handle \<Rightarrow> event \<Rightarrow> bool" where
  "okAt h (SetTEv h') = True"
| "okAt h (Invoke c h') = (h' = h \<and> (if suiteLevel c then h = SuiteT else \<exists>i. h = TestT i))"
| "okAt h (SubRun i n) = (h = SuiteT)"
| "okAt h (Fatalf h' msg) = (h' = h \<and> (\<exists>i. h = TestT i))"
| "okAt h (Stderr msg) = (h = SuiteT)"
| "okAt h (Exit c) = (h = SuiteT)"

fun scoped :: "handle \<Rightarrow> event list \<Rightarrow> bool" where
  "scoped h [] = True"
| "scoped h (e # es) = (okAt h e \<and> scoped (handleAfter h [e]) es)"

subsection \<open>How user code behaves\<close>

definition returnsNormally :: "'s action \<Rightarrow> bool" where
  "returnsNormally f = (\<forall>h s. fst (f h s) = Returns)"

definition neverPanics :: "'s action \<Rightarrow> bool" where
  "neverPanics f = (\<forall>h s. fst (f h s) \<noteq> Panics)"

definition hookReturns :: "'s action option \<Rightarrow> bool" where
  "hookReturns hook = (\<forall>f. hook = Some f \<longrightarrow> returnsNormally f)"

definition hook2Returns :: "(string \<Rightarrow> string \<Rightarrow> 's action) option \<Rightarrow> bool" where
  "hook2Returns hook = (\<forall>f a b. hook = Some f \<longrightarrow> returnsNormally (f a b))"

definition hookNeverPanics :: "'s action option \<Rightarrow> bool" where
  "hookNeverPanics hook = (\<forall>f. hook = Some f \<longrightarrow> neverPanics f)"

definition hook2NeverPanics :: "(string \<Rightarrow> string \<Rightarrow> 's action) option \<Rightarrow> bool" where
  "hook2NeverPanics hook = (\<forall>f a b. hook = Some f \<longrightarrow> neverPanics (f a b))"

text \<open>The method at an index is run as a test: the filter says yes, without an error.\<close>

definition selected :: "matcher \<Rightarrow> string \<Rightarrow> 's suiteMethod \<Rightarrow> bool" where
  "selected MatchString matchMethod m = (methodFilter MatchString matchMethod (Name m) = (True, None))"

text \<open>The sub-units that a complete pass over the method table registers.\<close>

definition selectedFrom :: "matcher \<Rightarrow> string \<Rightarrow> nat \<Rightarrow> 's suiteMethod list \<Rightarrow> (nat \<times> string) list" where
  "selectedFrom MatchString matchMethod index ms =
     map (\<lambda>(i, m). (i, Name m))
       (filter (\<lambda>(i, m). prefix ''Test'' (Name m) \<and> MatchString matchMethod (Name m) = (True, None))
          (zip [index ..< index + length ms] ms))"

text \<open>
  What happens on the handle of the sub-test of method \<open>m\<close> when every hook around the
  method returns: the hooks that the suite implements, around the call of the method (or
  the \<^verbatim>\<open>Fatalf\<close> in its place).
\<close>

definition testSequence :: "'s suite \<Rightarrow> nat \<Rightarrow> 's suiteMethod \<Rightarrow> event list" where
  "testSequence S i m =
     hookCall SetupTestCall (SetupTest S) (TestT i) @
     hookCall (BeforeTestCall (ElemName S) (Name m)) (BeforeTest S) (TestT i) @
     [bodyEvent i m] @
     hookCall (AfterTestCall (ElemName S) (Name m)) (AfterTest S) (TestT i) @
     hookCall TearDownTestCall (TearDownTest S) (TestT i)"

text \<open>\<^verbatim>\<open>SetupTest\<close>, \<^verbatim>\<open>BeforeTest\<close> and \<^verbatim>\<open>AfterTest\<close> return whenever they are called.\<close>

definition hooksAroundBodyReturn :: "'s suite \<Rightarrow> bool" where
  "hooksAroundBodyReturn S =
     (hookReturns (SetupTest S) \<and> hook2Returns (BeforeTest S) \<and> hook2Returns (AfterTest S))"

text \<open>None of the four per-test hooks panics; each may return or stop with \<^verbatim>\<open>Goexit\<close>.\<close>

definition testHooksNeverPanic :: "'s suite \<Rightarrow> bool" where
  "testHooksNeverPanic S =
     (hookNeverPanics (SetupTest S) \<and> hook2NeverPanics (BeforeTest S) \<and>
      hook2NeverPanics (AfterTest S) \<and> hookNeverPanics (TearDownTest S))"

text \<open>The method, when \<^verbatim>\<open>Run\<close> can call it at all, does not panic.\<close>

definition bodyNeverPanics :: "'s suiteMethod \<Rightarrow> bool" where
  "bodyNeverPanics m = (NumIn m = 1 \<longrightarrow> neverPanics (Func m))"

subsection \<open>Well-formed traces\<close>

text \<open>The calls that the sub-test of method \<open>m\<close> can make.\<close>

definition testCall :: "'s suite \<Rightarrow> 's suiteMethod \<Rightarrow> call \<Rightarrow> bool" where
  "testCall S m c =
     (c = SetupTestCall \<and> SetupTest S \<noteq> None \<or>
      c = BeforeTestCall (ElemName S) (Name m) \<and> BeforeTest S \<noteq> None \<or>
      c = MethodCall (Name m) \<and> NumIn m = 1 \<or>
      c = AfterTestCall (ElemName S) (Name m) \<and> AfterTest S \<noteq> None \<or>
      c = TearDownTestCall \<and> TearDownTest S \<noteq> None)"

text \<open>The index is in the method table and its method is run as a test.\<close>

definition selectedAt :: "matcher \<Rightarrow> string \<Rightarrow> 's suite \<Rightarrow> nat \<Rightarrow> bool" where
  "selectedAt MatchString matchMethod S i =
     (i < length (Methods S) \<and> selected MatchString matchMethod (Methods S ! i))"

text \<open>
  What an event of a run on suite \<open>S\<close> can be: every event belongs to the suite as a whole or
  to the sub-test of a selected method, and carries the names that belong to it.
\<close>

fun runEvent :: "matcher \<Rightarrow> string \<Rightarrow> 's suite \<Rightarrow> event \<Rightarrow> bool" where
  "runEvent re p S (SetTEv h) =
     (case h of NilT \<Rightarrow> False | SuiteT \<Rightarrow> True | TestT i \<Rightarrow> selectedAt re p S i)"
| "runEvent re p S (Invoke c h) =
     (case h of
        NilT \<Rightarrow> False
      | SuiteT \<Rightarrow> c = SetupSuiteCall \<and> SetupSuite S \<noteq> None \<or>
                  c = TearDownSuiteCall \<and> TearDownSuite S \<noteq> None
      | TestT i \<Rightarrow> selectedAt re p S i \<and> testCall S (Methods S ! i) c)"
| "runEvent re p S (SubRun i n) = (selectedAt re p S i \<and> n = Name (Methods S ! i))"
| "runEvent re p S (Fatalf h msg) =
     (case h of
        TestT i \<Rightarrow> selectedAt re p S i \<and> NumIn (Methods S ! i) \<noteq> 1 \<and>
                   msg = ''suite: too many arguments to method '' @ Name (Methods S ! i)
      | _ \<Rightarrow> False)"
| "runEvent re p S (Stderr msg) =
     (\<exists>m \<in> set (Methods S).
        case snd (methodFilter re p (Name m)) of None \<Rightarrow> False | Some err \<Rightarrow> msg = exitMessage err)"
| "runEvent re p S (Exit c) = (c = 1)"

text \<open>
  A trace is well formed for the handle \<open>h\<close>: its events are events of the run, each one
  happens on the handle that is current when it happens, and \<open>h\<close> is current at its end.
\<close>

definition wellFormed :: "matcher \<Rightarrow> string \<Rightarrow> 's suite \<Rightarrow> handle \<Rightarrow> event list \<Rightarrow> bool" where
  "wellFormed re p S h tr =
     (list_all (runEvent re p S) tr \<and> scoped NilT tr \<and> handleAfter NilT tr = h)"

subsection \<open>The pattern matcher at concrete patterns\<close>

text \<open>
  \<^verbatim>\<open>regexp.MatchString\<close> on the patterns used below to run the model: a pattern without
  metacharacters matches a name when it occurs in it (the empty pattern occurs in every
  name), and the pattern \<^verbatim>\<open>(\<close> does not compile. No other pattern is given to it.
\<close>

definition literalMatchString :: matcher where
  "literalMatchString pat s =
     (if pat = ''('' then (False, Some ''error parsing regexp: missing closing ): `(`'')
      else (sublist pat s, None))"

subsection \<open>The suites of the repository's tests\<close>

text \<open>
  \<^verbatim>\<open>SuiteTester\<close>: the counters and the name lists of the struct (the two lists of times are
  left out), its six hooks, and its method table in the order of \<^verbatim>\<open>reflect\<close> (sorted by
  name; \<^verbatim>\<open>T\<close> and \<^verbatim>\<open>SetT\<close> come from the embedded \<^verbatim>\<open>Suite\<close>). The assertions of \<^verbatim>\<open>TestOne\<close> and
  \<^verbatim>\<open>TestTwo\<close> hold, so both return; \<^verbatim>\<open>TestSkip\<close> calls \<^verbatim>\<open>Skip\<close>.
\<close>

record suiteTesterFields =
  SetupSuiteRunCount :: int
  TearDownSuiteRunCount :: int
  SetupTestRunCount :: int
  TearDownTestRunCount :: int
  TestOneRunCount :: int
  TestTwoRunCount :: int
  NonTestMethodRunCount :: int
  SuiteNameBefore :: "string list"
  TestNameBefore :: "string list"
  SuiteNameAfter :: "string list"
  TestNameAfter :: "string list"

definition newSuiteTester :: suiteTesterFields where
  "newSuiteTester =
     \<lparr>SetupSuiteRunCount = 0, TearDownSuiteRunCount = 0, SetupTestRunCount = 0,
      TearDownTestRunCount = 0, TestOneRunCount = 0, TestTwoRunCount = 0,
      NonTestMethodRunCount = 0, SuiteNameBefore = [], TestNameBefore = [],
      SuiteNameAfter = [], TestNameAfter = []\<rparr>"

definition SuiteTester_SetupSuite :: "suiteTesterFields action" where
  "SuiteTester_SetupSuite h s = (Returns, s\<lparr>SetupSuiteRunCount := SetupSuiteRunCount s + 1\<rparr>)"

definition SuiteTester_TearDownSuite :: "suiteTesterFields action" where
  "SuiteTester_TearDownSuite h s = (Returns, s\<lparr>TearDownSuiteRunCount := TearDownSuiteRunCount s + 1\<rparr>)"

definition SuiteTester_SetupTest :: "suiteTesterFields action" where
  "SuiteTester_SetupTest h s = (Returns, s\<lparr>SetupTestRunCount := SetupTestRunCount s + 1\<rparr>)"

definition SuiteTester_TearDownTest :: "suiteTesterFields action" where
  "SuiteTester_TearDownTest h s = (Returns, s\<lparr>TearDownTestRunCount := TearDownTestRunCount s + 1\<rparr>)"

definition SuiteTester_BeforeTest :: "string \<Rightarrow> string \<Rightarrow> suiteTesterFields action" where
  "SuiteTester_BeforeTest suiteName testName h s =
     (Returns, s\<lparr>SuiteNameBefore := SuiteNameBefore s @ [suiteName],
                 TestNameBefore := TestNameBefore s @ [testName]\<rparr>)"

definition SuiteTester_AfterTest :: "string \<Rightarrow> string \<Rightarrow> suiteTesterFields action" where
  "SuiteTester_AfterTest suiteName testName h s =
     (Returns, s\<lparr>SuiteNameAfter := SuiteNameAfter s @ [suiteName],
                 TestNameAfter := TestNameAfter s @ [testName]\<rparr>)"

definition SuiteTester_TestOne :: "suiteTesterFields action" where
  "SuiteTester_TestOne h s = (Returns, s\<lparr>TestOneRunCount := TestOneRunCount s + 1\<rparr>)"

definition SuiteTester_TestTwo :: "suiteTesterFields action" where
  "SuiteTester_TestTwo h s = (Returns, s\<lparr>TestTwoRunCount := TestTwoRunCount s + 1\<rparr>)"

definition SuiteTester_TestSkip :: "suiteTesterFields action" where
  "SuiteTester_TestSkip h s = (Goexits, s)"

definition SuiteTester_NonTestMethod :: "suiteTesterFields action" where
  "SuiteTester_NonTestMethod h s = (Returns, s\<lparr>NonTestMethodRunCount := NonTestMethodRunCount s + 1\<rparr>)"

text \<open>
  The table entry of a method that \<^verbatim>\<open>Run\<close> has no way to call without arguments
  (\<open>NumIn\<close> is not 1), and of \<^verbatim>\<open>T\<close>, which only reads the handle.
\<close>

definition noEffect :: "'s action" where
  "noEffect h s = (Returns, s)"

definition suiteTester :: "suiteTesterFields suite" where
  "suiteTester =
     \<lparr>ElemName = ''SuiteTester'',
      Methods =
        [\<lparr>Name = ''AfterTest'', NumIn = 3, Func = noEffect\<rparr>,
         \<lparr>Name = ''BeforeTest'', NumIn = 3, Func = noEffect\<rparr>,
         \<lparr>Name = ''NonTestMethod'', NumIn = 1, Func = SuiteTester_NonTestMethod\<rparr>,
         \<lparr>Name = ''SetT'', NumIn = 2, Func = noEffect\<rparr>,
         \<lparr>Name = ''SetupSuite'', NumIn = 1, Func = SuiteTester_SetupSuite\<rparr>,
         \<lparr>Name = ''SetupTest'', NumIn = 1, Func = SuiteTester_SetupTest\<rparr>,
         \<lparr>Name = ''T'', NumIn = 1, Func = noEffect\<rparr>,
         \<lparr>Name = ''TearDownSuite'', NumIn = 1, Func = SuiteTester_TearDownSuite\<rparr>,
         \<lparr>Name = ''TearDownTest'', NumIn = 1, Func = SuiteTester_TearDownTest\<rparr>,
         \<lparr>Name = ''TestOne'', NumIn = 1, Func = SuiteTester_TestOne\<rparr>,
         \<lparr>Name = ''TestSkip'', NumIn = 1, Func = SuiteTester_TestSkip\<rparr>,
         \<lparr>Name = ''TestTwo'', NumIn = 1, Func = SuiteTester_TestTwo\<rparr>],
      SetupSuite = Some SuiteTester_SetupSuite,
      TearDownSuite = Some SuiteTester_TearDownSuite,
      SetupTest = Some SuiteTester_SetupTest,
      TearDownTest = Some SuiteTester_TearDownTest,
      BeforeTest = Some SuiteTester_BeforeTest,
      AfterTest = Some SuiteTester_AfterTest\<rparr>"


definition callsPanic :: "'s action" where
  "callsPanic h s = (Panics, s)"

text \<open>\<^verbatim>\<open>SuiteTester\<close> without its three test methods.\<close>

definition suiteTesterWithoutTests :: "suiteTesterFields suite" where
  "suiteTesterWithoutTests = suiteTester\<lparr>Methods := take 9 (Methods suiteTester)\<rparr>"

text \<open>\<^verbatim>\<open>SuiteTester\<close> with a \<^verbatim>\<open>SetupTest\<close> that panics.\<close>

definition suiteTesterPanickingSetup :: "suiteTesterFields suite" where
  "suiteTesterPanickingSetup = suiteTester\<lparr>SetupTest := Some callsPanic\<rparr>"


text \<open>
  \<^verbatim>\<open>SuiteSkipTester\<close>: two counters (a pair: set-up count, tear-down count); \<^verbatim>\<open>SetupSuite\<close>
  counts and then calls \<^verbatim>\<open>suite.T().Skip()\<close>.
\<close>

definition SuiteSkipTester_SetupSuite :: "(int \<times> int) action" where
  "SuiteSkipTester_SetupSuite h s = (Goexits, (fst s + 1, snd s))"

definition SuiteSkipTester_TearDownSuite :: "(int \<times> int) action" where
  "SuiteSkipTester_TearDownSuite h s = (Returns, (fst s, snd s + 1))"

definition suiteSkipTester :: "(int \<times> int) suite" where
  "suiteSkipTester =
     \<lparr>ElemName = ''SuiteSkipTester'',
      Methods =
        [\<lparr>Name = ''SetT'', NumIn = 2, Func = noEffect\<rparr>,
         \<lparr>Name = ''SetupSuite'', NumIn = 1, Func = SuiteSkipTester_SetupSuite\<rparr>,
         \<lparr>Name = ''T'', NumIn = 1, Func = noEffect\<rparr>,
         \<lparr>Name = ''TearDownSuite'', NumIn = 1, Func = SuiteSkipTester_TearDownSuite\<rparr>],
      SetupSuite = Some SuiteSkipTester_SetupSuite,
      TearDownSuite = Some SuiteSkipTester_TearDownSuite,
      SetupTest = None,
      TearDownTest = None,
      BeforeTest = None,
      AfterTest = None\<rparr>"

text \<open>The same suite with one test method more, \<^verbatim>\<open>func (s *SuiteSkipTester) TestAfterSkip() {}\<close>.\<close>

definition suiteSkipTesterWithTest :: "(int \<times> int) suite" where
  "suiteSkipTesterWithTest =
     suiteSkipTester\<lparr>Methods := Methods suiteSkipTester @
       [\<lparr>Name = ''TestAfterSkip'', NumIn = 1, Func = noEffect\<rparr>]\<rparr>"

text \<open>\<^verbatim>\<open>SuiteWithBadSignature\<close>: no fields, no hooks; both test methods only log.\<close>

definition suiteWithBadSignature :: "unit suite" where
  "suiteWithBadSignature =
     \<lparr>ElemName = ''SuiteWithBadSignature'',
      Methods =
        [\<lparr>Name = ''SetT'', NumIn = 2, Func = noEffect\<rparr>,
         \<lparr>Name = ''T'', NumIn = 1, Func = noEffect\<rparr>,
         \<lparr>Name = ''TestSomeOtherTestShouldRunAnyway'', NumIn = 1, Func = noEffect\<rparr>,
         \<lparr>Name = ''TestSomethingWithBadSignature'', NumIn = 2, Func = noEffect\<rparr>],
      SetupSuite = None,
      TearDownSuite = None,
      SetupTest = None,
      TearDownTest = None,
      BeforeTest = None,
      AfterTest = None\<rparr>"

subsection \<open>Properties kept by a piece of the run\<close>

text \<open>
  A piece of \<^verbatim>\<open>Run\<close> that starts in \<open>st\<close> and ends in \<open>snd r\<close> keeps the property \<open>I\<close> of the
  current handle and the trace, and ends on a handle that satisfies \<open>Q\<close>.
\<close>

definition keeps ::
  "(handle \<Rightarrow> event list \<Rightarrow> bool) \<Rightarrow> (handle \<Rightarrow> bool) \<Rightarrow> 's runState \<Rightarrow> 'a \<times> 's runState \<Rightarrow> bool" where
  "keeps I Q st r =
     ((I (suite_t st) (trace st) \<longrightarrow> I (suite_t (snd r)) (trace (snd r))) \<and> Q (suite_t (snd r)))"

section \<open>Basic facts\<close>

lemma Suite_SetT_simps [simp]:
  "suite_t (Suite_SetT h st) = h"
  "suite_fields (Suite_SetT h st) = suite_fields st"
  "trace (Suite_SetT h st) = trace st @ [SetTEv h]"
  by (simp_all add: Suite_SetT_def)

lemma invoke_simps [simp]:
  "fst (invoke c f st) = fst (f (suite_t st) (suite_fields st))"
  "suite_t (snd (invoke c f st)) = suite_t st"
  "suite_fields (snd (invoke c f st)) = snd (f (suite_t st) (suite_fields st))"
  "trace (snd (invoke c f st)) = trace st @ [Invoke c (suite_t st)]"
  by (simp_all add: invoke_def Suite_T_def split: prod.splits)

lemma invokeOpt_simps [simp]:
  "suite_t (snd (invokeOpt c hook st)) = suite_t st"
  "trace (snd (invokeOpt c hook st)) = trace st @ hookCall c hook (suite_t st)"
  by (simp_all add: invokeOpt_def hookCall_def split: option.splits)

lemma hookCall_map_option [simp]: "hookCall c (map_option g hook) h = hookCall c hook h"
  by (cases hook) (simp_all add: hookCall_def)

lemma invokeOpt_returns:
  "hookReturns hook \<Longrightarrow> fst (invokeOpt c hook st) = Returns"
  by (cases hook) (simp_all add: invokeOpt_def hookReturns_def returnsNormally_def)

lemma invokeOpt_returns2:
  "hook2Returns hook \<Longrightarrow> fst (invokeOpt c (map_option (\<lambda>f. f a b) hook) st) = Returns"
  by (cases hook) (simp_all add: invokeOpt_def hook2Returns_def returnsNormally_def)

lemma invokeOpt_no_panic:
  "hookNeverPanics hook \<Longrightarrow> fst (invokeOpt c hook st) \<noteq> Panics"
  by (cases hook) (simp_all add: invokeOpt_def hookNeverPanics_def neverPanics_def)

lemma invokeOpt_no_panic2:
  "hook2NeverPanics hook \<Longrightarrow> fst (invokeOpt c (map_option (\<lambda>f. f a b) hook) st) \<noteq> Panics"
  by (cases hook) (simp_all add: invokeOpt_def hook2NeverPanics_def neverPanics_def)

lemma andThen_returned: "fst r = Returns \<Longrightarrow> andThen r k = k (snd r)"
  by (cases r) (simp add: andThen_def)

lemma andThen_stopped: "fst r \<noteq> Returns \<Longrightarrow> andThen r k = r"
  by (cases r) (simp add: andThen_def)

lemma snd_withDefer [simp]: "snd (withDefer d r) = snd (d (snd r))"
  by (simp add: withDefer_def split: prod.splits)

lemma fst_withDefer:
  "fst (withDefer d r) = (if fst (d (snd r)) = Returns then fst r else fst (d (snd r)))"
  by (simp add: withDefer_def split: prod.splits)

lemma onHandle_append [simp]: "onHandle h (xs @ ys) = onHandle h xs @ onHandle h ys"
  by (induction h xs rule: onHandle.induct) simp_all

lemma subUnits_append [simp]: "subUnits (xs @ ys) = subUnits xs @ subUnits ys"
  by (induction xs rule: subUnits.induct) simp_all

lemma handleAfter_append [simp]: "handleAfter h (xs @ ys) = handleAfter (handleAfter h xs) ys"
  by (induction h xs rule: handleAfter.induct) simp_all

lemma handleAfter_Cons: "handleAfter h (e # es) = handleAfter (handleAfter h [e]) es"
  by (cases e) simp_all

lemma scoped_append [simp]:
  "scoped h (xs @ ys) = (scoped h xs \<and> scoped (handleAfter h xs) ys)"
proof (induction xs arbitrary: h)
  case Nil
  show ?case by simp
next
  case (Cons e es)
  show ?case using Cons.IH[of "handleAfter h [e]"] handleAfter_Cons[of h e es] by simp
qed

lemma onHandle_hookCall [simp]:
  "onHandle h (hookCall c hook h') = (if h' = h then hookCall c hook h' else [])"
  by (cases hook) (simp_all add: hookCall_def)

lemma subUnits_hookCall [simp]: "subUnits (hookCall c hook h) = []"
  by (cases hook) (simp_all add: hookCall_def)

subsection \<open>Invariants along a run\<close>

text \<open>The rules for \<open>keeps\<close> follow the statements of \<^verbatim>\<open>Run\<close> one by one.\<close>

lemma keeps_trans:
  assumes "keeps I Q st r" and "\<And>st1. Q (suite_t st1) \<Longrightarrow> keeps I Q' st1 (k st1)"
  shows "keeps I Q' st (k (snd r))"
  using assms unfolding keeps_def by blast

lemma keeps_weaken: "keeps I Q st r \<Longrightarrow> (\<And>h. Q h \<Longrightarrow> Q' h) \<Longrightarrow> keeps I Q' st r"
  by (auto simp: keeps_def)

lemma keeps_andThen:
  assumes "keeps I Q st r" and "\<And>st1. Q (suite_t st1) \<Longrightarrow> keeps I Q' st1 (k st1)"
    and "\<And>h. Q h \<Longrightarrow> Q' h"
  shows "keeps I Q' st (andThen r k)"
proof (cases "fst r = Returns")
  case True
  then show ?thesis using keeps_trans[OF assms(1,2)] by (simp add: andThen_returned)
next
  case False
  then show ?thesis using keeps_weaken[OF assms(1) assms(3)] by (simp add: andThen_stopped)
qed

lemma keeps_withDefer:
  assumes "keeps I Q st r" and "\<And>st1. Q (suite_t st1) \<Longrightarrow> keeps I Q' st1 (d st1)"
  shows "keeps I Q' st (withDefer d r)"
  using keeps_trans[OF assms] by (simp add: keeps_def)

lemma keeps_invokeOpt:
  assumes "\<And>tr. hook \<noteq> None \<Longrightarrow> I (suite_t st) tr \<Longrightarrow> I (suite_t st) (tr @ [Invoke c (suite_t st)])"
    and "Q (suite_t st)"
  shows "keeps I Q st (invokeOpt c hook st)"
  using assms by (cases hook) (simp_all add: keeps_def hookCall_def)

lemma keeps_invoke:
  assumes "\<And>tr. I (suite_t st) tr \<Longrightarrow> I (suite_t st) (tr @ [Invoke c (suite_t st)])"
    and "Q (suite_t st)"
  shows "keeps I Q st (invoke c f st)"
  using assms by (simp add: keeps_def)

lemma keeps_SetT:
  assumes "\<And>tr. I (suite_t st) tr \<Longrightarrow> I h (tr @ [SetTEv h])" and "Q h"
  shows "keeps I Q st (out, Suite_SetT h st)"
  using assms by (simp add: keeps_def)

text \<open>
  A property of the handle and the trace survives a sub-test when it survives each event
  that the sub-test can add.
\<close>

lemma callMethod_simps [simp]:
  "suite_t (snd (callMethod i m st)) = suite_t st"
  "suite_t st = TestT i \<Longrightarrow> trace (snd (callMethod i m st)) = trace st @ [bodyEvent i m]"
  "fst (callMethod i m st) =
     (if NumIn m = 1 then fst (Func m (suite_t st) (suite_fields st)) else Goexits)"
  by (simp_all add: callMethod_def bodyEvent_def)

lemma callMethod_keeps:
  assumes "suite_t st = TestT i"
    and "\<And>tr. I (TestT i) tr \<Longrightarrow> I (TestT i) (tr @ [bodyEvent i m])"
  shows "keeps I (\<lambda>h. h = TestT i) st (callMethod i m st)"
  using assms by (simp add: keeps_def)

lemma testDeferred_keeps:
  assumes atT: "suite_t st = TestT i"
    and atAfter: "\<And>tr. AfterTest S \<noteq> None \<Longrightarrow> I (TestT i) tr \<Longrightarrow>
            I (TestT i) (tr @ [Invoke (AfterTestCall (ElemName S) (Name m)) (TestT i)])"
    and atDown: "\<And>tr. TearDownTest S \<noteq> None \<Longrightarrow> I (TestT i) tr \<Longrightarrow>
            I (TestT i) (tr @ [Invoke TearDownTestCall (TestT i)])"
    and atRestore: "\<And>tr. I (TestT i) tr \<Longrightarrow> I SuiteT (tr @ [SetTEv SuiteT])"
  shows "keeps I (\<lambda>h. h = TestT i \<or> h = SuiteT) st (testDeferred S m st)"
  unfolding testDeferred_def
  apply (rule keeps_andThen[where Q = "\<lambda>h. h = TestT i"])
    apply (rule keeps_andThen[where Q = "\<lambda>h. h = TestT i"])
      apply (rule keeps_invokeOpt; simp add: atT atAfter)
     apply (rule keeps_invokeOpt; simp add: atDown)
    apply simp
   apply (rule keeps_SetT; simp add: atRestore)
  apply simp
  done

lemma subTest_keeps:
  assumes atEnter: "\<And>tr. I (suite_t st) tr \<Longrightarrow> I (TestT i) (tr @ [SetTEv (TestT i)])"
    and atSetup: "\<And>tr. SetupTest S \<noteq> None \<Longrightarrow> I (TestT i) tr \<Longrightarrow>
            I (TestT i) (tr @ [Invoke SetupTestCall (TestT i)])"
    and atBefore: "\<And>tr. BeforeTest S \<noteq> None \<Longrightarrow> I (TestT i) tr \<Longrightarrow>
            I (TestT i) (tr @ [Invoke (BeforeTestCall (ElemName S) (Name m)) (TestT i)])"
    and atBody: "\<And>tr. I (TestT i) tr \<Longrightarrow> I (TestT i) (tr @ [bodyEvent i m])"
    and atAfter: "\<And>tr. AfterTest S \<noteq> None \<Longrightarrow> I (TestT i) tr \<Longrightarrow>
            I (TestT i) (tr @ [Invoke (AfterTestCall (ElemName S) (Name m)) (TestT i)])"
    and atDown: "\<And>tr. TearDownTest S \<noteq> None \<Longrightarrow> I (TestT i) tr \<Longrightarrow>
            I (TestT i) (tr @ [Invoke TearDownTestCall (TestT i)])"
    and atRestore: "\<And>tr. I (TestT i) tr \<Longrightarrow> I SuiteT (tr @ [SetTEv SuiteT])"
  shows "keeps I (\<lambda>h. h = TestT i \<or> h = SuiteT) st (subTest S i m st)"
  unfolding subTest_def
  apply (rule keeps_andThen[where Q = "\<lambda>h. h = TestT i"])
    apply (rule keeps_andThen[where Q = "\<lambda>h. h = TestT i"])
      apply (rule keeps_trans[where r = "(Returns, Suite_SetT (TestT i) st)" and Q = "\<lambda>h. h = TestT i", simplified])
       apply (rule keeps_SetT; simp add: atEnter)
      apply (rule keeps_invokeOpt; simp add: atSetup)
     apply (rule keeps_invokeOpt; simp add: atBefore)
    apply simp
   apply (rule keeps_withDefer[where Q = "\<lambda>h. h = TestT i"])
    apply (rule callMethod_keeps; simp add: atBody)
   apply (rule testDeferred_keeps; simp add: atAfter atDown atRestore)
  apply simp
  done

lemma subTest_handle: "suite_t (snd (subTest S i m st)) = TestT i \<or> suite_t (snd (subTest S i m st)) = SuiteT"
  using subTest_keeps[where I = "\<lambda>h tr. True" and st = st and i = i and S = S and m = m]
  by (simp add: keeps_def)


subsection \<open>The branches of the loop and of \<^verbatim>\<open>Run\<close>\<close>

lemma runMethods_error:
  "snd (methodFilter re p (Name m)) = Some err \<Longrightarrow>
   runMethods re p S i (m # ms) st =
     (Exited 1, st\<lparr>trace := trace st @ [Stderr (exitMessage err), Exit 1]\<rparr>)"
  by (cases "methodFilter re p (Name m)") (simp add: exitMessage_def)

lemma runMethods_skip:
  "methodFilter re p (Name m) = (False, None) \<Longrightarrow>
   runMethods re p S i (m # ms) st = runMethods re p S (Suc i) ms st"
  by simp

lemma runMethods_crash:
  "methodFilter re p (Name m) = (True, None) \<Longrightarrow>
   fst (tRun i (Name m) (subTest S i m) st) = Panics \<Longrightarrow>
   runMethods re p S i (m # ms) st = (Crashed, snd (tRun i (Name m) (subTest S i m) st))"
  by (simp add: case_prod_beta)

lemma runMethods_next:
  "methodFilter re p (Name m) = (True, None) \<Longrightarrow>
   fst (tRun i (Name m) (subTest S i m) st) \<noteq> Panics \<Longrightarrow>
   runMethods re p S i (m # ms) st =
     runMethods re p S (Suc i) ms (Suite_SetT SuiteT (snd (tRun i (Name m) (subTest S i m) st)))"
  by (simp add: case_prod_beta)

lemma methodFilter_cases:
  obtains (error) err where "snd (methodFilter re p n) = Some err"
  | (skip) "methodFilter re p n = (False, None)"
  | (run) "methodFilter re p n = (True, None)"
  by (cases "methodFilter re p n"; cases "snd (methodFilter re p n)"; cases "fst (methodFilter re p n)") auto

lemma Run_setup_stops:
  "fst (invokeOpt SetupSuiteCall (SetupSuite S) (Suite_SetT SuiteT (newSuite s))) \<noteq> Returns \<Longrightarrow>
   Run re p S s =
     (goroutineEnd (fst (invokeOpt SetupSuiteCall (SetupSuite S) (Suite_SetT SuiteT (newSuite s)))),
      snd (invokeOpt SetupSuiteCall (SetupSuite S) (Suite_SetT SuiteT (newSuite s))))"
  by (simp add: Run_def case_prod_beta)

lemma Run_loop_stops:
  "fst (invokeOpt SetupSuiteCall (SetupSuite S) (Suite_SetT SuiteT (newSuite s))) = Returns \<Longrightarrow>
   fst (runMethods re p S 0 (Methods S)
          (snd (invokeOpt SetupSuiteCall (SetupSuite S) (Suite_SetT SuiteT (newSuite s))))) \<noteq> Returned \<Longrightarrow>
   Run re p S s =
     runMethods re p S 0 (Methods S)
       (snd (invokeOpt SetupSuiteCall (SetupSuite S) (Suite_SetT SuiteT (newSuite s))))"
  by (simp add: Run_def case_prod_beta)

lemma Run_completes:
  "fst (invokeOpt SetupSuiteCall (SetupSuite S) (Suite_SetT SuiteT (newSuite s))) = Returns \<Longrightarrow>
   fst (runMethods re p S 0 (Methods S)
          (snd (invokeOpt SetupSuiteCall (SetupSuite S) (Suite_SetT SuiteT (newSuite s))))) = Returned \<Longrightarrow>
   Run re p S s =
     (goroutineEnd (fst (suiteDeferred S (snd (runMethods re p S 0 (Methods S)
          (snd (invokeOpt SetupSuiteCall (SetupSuite S) (Suite_SetT SuiteT (newSuite s)))))))),
      snd (suiteDeferred S (snd (runMethods re p S 0 (Methods S)
          (snd (invokeOpt SetupSuiteCall (SetupSuite S) (Suite_SetT SuiteT (newSuite s))))))))"
  by (simp add: Run_def case_prod_beta)

declare runMethods.simps(2) [simp del]

subsection \<open>Every trace of \<^verbatim>\<open>Run\<close> is well formed\<close>

lemma drop_eq_Cons:
  assumes "drop i xs = y # ys"
  shows "i < length xs" and "xs ! i = y" and "drop (Suc i) xs = ys"
proof -
  show 1: "i < length xs" using assms by (cases "i < length xs") simp_all
  from Cons_nth_drop_Suc[OF 1] assms show "xs ! i = y" and "drop (Suc i) xs = ys" by simp_all
qed

lemma wellFormed_restore:
  "wellFormed re p S h tr \<Longrightarrow> wellFormed re p S SuiteT (tr @ [SetTEv SuiteT])"
  by (simp add: wellFormed_def)

lemma subTest_wellFormed:
  assumes "selectedAt re p S i" and "m = Methods S ! i"
  shows "keeps (wellFormed re p S) (\<lambda>h. h = TestT i \<or> h = SuiteT) st (subTest S i m st)"
proof (rule subTest_keeps)
  fix tr
  show "wellFormed re p S (suite_t st) tr \<Longrightarrow> wellFormed re p S (TestT i) (tr @ [SetTEv (TestT i)])"
    using assms by (simp add: wellFormed_def)
  show "wellFormed re p S (TestT i) tr \<Longrightarrow> wellFormed re p S (TestT i) (tr @ [bodyEvent i m])"
    using assms by (simp add: wellFormed_def bodyEvent_def testCall_def suiteLevel_def)
  show "wellFormed re p S (TestT i) tr \<Longrightarrow> wellFormed re p S SuiteT (tr @ [SetTEv SuiteT])"
    by (rule wellFormed_restore)
  show "SetupTest S \<noteq> None \<Longrightarrow> wellFormed re p S (TestT i) tr \<Longrightarrow>
        wellFormed re p S (TestT i) (tr @ [Invoke SetupTestCall (TestT i)])"
    using assms by (simp add: wellFormed_def testCall_def suiteLevel_def)
  show "BeforeTest S \<noteq> None \<Longrightarrow> wellFormed re p S (TestT i) tr \<Longrightarrow>
        wellFormed re p S (TestT i) (tr @ [Invoke (BeforeTestCall (ElemName S) (Name m)) (TestT i)])"
    using assms by (simp add: wellFormed_def testCall_def suiteLevel_def)
  show "AfterTest S \<noteq> None \<Longrightarrow> wellFormed re p S (TestT i) tr \<Longrightarrow>
        wellFormed re p S (TestT i) (tr @ [Invoke (AfterTestCall (ElemName S) (Name m)) (TestT i)])"
    using assms by (simp add: wellFormed_def testCall_def suiteLevel_def)
  show "TearDownTest S \<noteq> None \<Longrightarrow> wellFormed re p S (TestT i) tr \<Longrightarrow>
        wellFormed re p S (TestT i) (tr @ [Invoke TearDownTestCall (TestT i)])"
    using assms by (simp add: wellFormed_def testCall_def suiteLevel_def)
qed

lemma tRun_subTest_wellFormed:
  assumes "selectedAt re p S i" and "m = Methods S ! i" and "suite_t st = SuiteT"
    and "wellFormed re p S SuiteT (trace st)"
  shows "wellFormed re p S (suite_t (snd (tRun i (Name m) (subTest S i m) st)))
           (trace (snd (tRun i (Name m) (subTest S i m) st)))"
proof -
  define st1 where "st1 = st\<lparr>trace := trace st @ [SubRun i (Name m)]\<rparr>"
  have "wellFormed re p S (suite_t st1) (trace st1)"
    using assms by (simp add: st1_def wellFormed_def)
  then show ?thesis
    using subTest_wellFormed[OF assms(1,2), of st1]
    by (simp add: keeps_def st1_def tRun_def)
qed

lemma runMethods_wellFormed:
  assumes "drop i (Methods S) = ms" and "suite_t st = SuiteT"
    and "wellFormed re p S SuiteT (trace st)"
  shows "wellFormed re p S (suite_t (snd (runMethods re p S i ms st)))
           (trace (snd (runMethods re p S i ms st)))"
  using assms
proof (induction ms arbitrary: i st)
  case Nil
  then show ?case by simp
next
  case (Cons m ms)
  note at = drop_eq_Cons[OF Cons.prems(1)]
  show ?case
  proof (cases rule: methodFilter_cases[of re p "Name m"])
    case (error e)
    have "m \<in> set (Methods S)" using at(1,2) nth_mem by blast
    then have "runEvent re p S (Stderr (exitMessage e))"
      using error by (auto intro!: bexI[of _ m])
    then show ?thesis using Cons.prems(2,3)
      by (simp add: runMethods_error[OF error] wellFormed_def)
  next
    case skip
    then show ?thesis using Cons.IH[OF at(3) Cons.prems(2,3)] by (simp only: runMethods_skip)
  next
    case run
    have sel: "selectedAt re p S i" using run at by (simp add: selectedAt_def selected_def)
    define r where "r = tRun i (Name m) (subTest S i m) st"
    have w2: "wellFormed re p S (suite_t (snd r)) (trace (snd r))"
      unfolding r_def by (rule tRun_subTest_wellFormed[OF sel at(2)[symmetric] Cons.prems(2,3)])
    show ?thesis
    proof (cases "fst r = Panics")
      case True
      then show ?thesis using w2 runMethods_crash[OF run, of i S st ms] by (simp only: r_def snd_conv)
    next
      case False
      have "wellFormed re p S SuiteT (trace (Suite_SetT SuiteT (snd r)))"
        using wellFormed_restore[OF w2] by simp
      from Cons.IH[OF at(3) _ this] False show ?thesis
        using runMethods_next[OF run, of i S st ms] by (simp add: r_def)
    qed
  qed
qed

lemma Run_wellFormed:
  "wellFormed re p S (suite_t (snd (Run re p S s))) (trace (snd (Run re p S s)))"
proof -
  define r where "r = invokeOpt SetupSuiteCall (SetupSuite S) (Suite_SetT SuiteT (newSuite s))"
  have w1: "wellFormed re p S (suite_t (snd r)) (trace (snd r))"
    by (cases "SetupSuite S") (simp_all add: r_def newSuite_def wellFormed_def hookCall_def suiteLevel_def)
  have t1: "suite_t (snd r) = SuiteT" by (simp add: r_def)
  define r2 where "r2 = runMethods re p S 0 (Methods S) (snd r)"
  have w2: "wellFormed re p S (suite_t (snd r2)) (trace (snd r2))"
    unfolding r2_def using runMethods_wellFormed[of 0 S "Methods S" "snd r" re p] t1 w1 by simp
  define r3 where "r3 = suiteDeferred S (snd r2)"
  have w3: "wellFormed re p S (suite_t (snd r3)) (trace (snd r3))"
    using wellFormed_restore[OF w2]
    by (cases "TearDownSuite S") (simp_all add: r3_def suiteDeferred_def wellFormed_def hookCall_def suiteLevel_def)
  consider "fst r \<noteq> Returns" | "fst r = Returns" "fst r2 \<noteq> Returned" | "fst r = Returns" "fst r2 = Returned"
    by blast
  then show ?thesis
  proof cases
    case 1
    then show ?thesis using w1 Run_setup_stops[of S s re p] by (simp add: r_def)
  next
    case 2
    then show ?thesis using w2 Run_loop_stops[of S s re p] by (simp add: r_def r2_def)
  next
    case 3
    then show ?thesis using w3 Run_completes[of S s re p] by (simp add: r_def r2_def r3_def)
  qed
qed


subsection \<open>The sub-units of a run that returns\<close>

lemma subUnits_bodyEvent [simp]: "subUnits [bodyEvent i m] = []"
  by (simp add: bodyEvent_def)

lemma subTest_subUnits [simp]:
  "subUnits (trace (snd (subTest S i m st))) = subUnits (trace st)"
  using subTest_keeps[where I = "\<lambda>h tr. subUnits tr = subUnits (trace st)" and st = st and S = S and i = i and m = m]
  by (simp add: keeps_def)

lemma selected_iff:
  "selected re p m \<longleftrightarrow> prefix ''Test'' (Name m) \<and> re p (Name m) = (True, None)"
  by (simp add: selected_def methodFilter_def matchTestPrefix_def)

lemma selectedFrom_Nil [simp]: "selectedFrom re p i [] = []"
  by (simp add: selectedFrom_def)

lemma selectedFrom_Cons:
  "selectedFrom re p i (m # ms) =
     (if selected re p m then [(i, Name m)] else []) @ selectedFrom re p (Suc i) ms"
  by (simp add: selectedFrom_def selected_iff upt_conv_Cons del: upt_Suc)

lemma runMethods_subUnits:
  "fst (runMethods re p S i ms st) = Returned \<Longrightarrow>
   subUnits (trace (snd (runMethods re p S i ms st))) = subUnits (trace st) @ selectedFrom re p i ms"
proof (induction ms arbitrary: i st)
  case Nil
  then show ?case by simp
next
  case (Cons m ms)
  show ?case
  proof (cases rule: methodFilter_cases[of re p "Name m"])
    case (error e)
    then show ?thesis using Cons.prems by (simp add: runMethods_error)
  next
    case skip
    then have "\<not> selected re p m" by (simp add: selected_def)
    then show ?thesis using Cons.prems Cons.IH[of "Suc i" st] skip
      by (simp add: runMethods_skip selectedFrom_Cons)
  next
    case run
    then have sel: "selected re p m" by (simp add: selected_def)
    define r where "r = tRun i (Name m) (subTest S i m) st"
    have su: "subUnits (trace (snd r)) = subUnits (trace st) @ [(i, Name m)]"
      by (simp add: r_def tRun_def)
    show ?thesis
    proof (cases "fst r = Panics")
      case True
      then show ?thesis using Cons.prems runMethods_crash[OF run, of i S st ms] by (simp add: r_def)
    next
      case False
      then have eq: "runMethods re p S i (m # ms) st =
          runMethods re p S (Suc i) ms (Suite_SetT SuiteT (snd r))"
        using runMethods_next[OF run, of i S st ms] by (simp add: r_def)
      then show ?thesis using Cons.prems Cons.IH[of "Suc i" "Suite_SetT SuiteT (snd r)"] su sel
        by (simp add: selectedFrom_Cons)
    qed
  qed
qed


lemmas run_defs = Run_def runMethods.simps suiteDeferred_def goroutineEnd_def newSuite_def tRun_def
  subTest_def testDeferred_def callMethod_def andThen_def withDefer_def invokeOpt_def invoke_def
  Suite_SetT_def Suite_T_def methodFilter_def matchTestPrefix_def literalMatchString_def
  exitMessage_def sublist_Cons_right

lemmas suiteTester_defs = suiteTester_def newSuiteTester_def SuiteTester_SetupSuite_def
  SuiteTester_TearDownSuite_def SuiteTester_SetupTest_def SuiteTester_TearDownTest_def
  SuiteTester_BeforeTest_def SuiteTester_AfterTest_def SuiteTester_TestOne_def
  SuiteTester_TestTwo_def SuiteTester_TestSkip_def SuiteTester_NonTestMethod_def noEffect_def





subsection \<open>What happens on one handle\<close>

lemma onHandle_bodyEvent [simp]:
  "onHandle h (bodyEvent i m # es) =
     (if h = TestT i then bodyEvent i m # onHandle h es else onHandle h es)"
  by (simp add: bodyEvent_def)

lemma subTest_onHandle_other:
  assumes "h \<noteq> TestT i"
  shows "onHandle h (trace (snd (subTest S i m st))) = onHandle h (trace st)"
  using subTest_keeps[where I = "\<lambda>h' tr. onHandle h tr = onHandle h (trace st)"
      and st = st and S = S and i = i and m = m] assms
  by (simp add: keeps_def)

lemma tRun_subTest_onHandle_other:
  assumes "h \<noteq> TestT i"
  shows "onHandle h (trace (snd (tRun i n (subTest S i m) st))) = onHandle h (trace st)"
  by (simp add: tRun_def subTest_onHandle_other[OF assms])

lemma runMethods_onHandle_other:
  assumes "\<forall>k\<ge>i. h \<noteq> TestT k"
  shows "onHandle h (trace (snd (runMethods re p S i ms st))) = onHandle h (trace st)"
  using assms
proof (induction ms arbitrary: i st)
  case Nil
  then show ?case by simp
next
  case (Cons m ms)
  have later: "\<forall>k\<ge>Suc i. h \<noteq> TestT k" using Cons.prems by simp
  have here: "h \<noteq> TestT i" using Cons.prems by simp
  show ?case
  proof (cases rule: methodFilter_cases[of re p "Name m"])
    case (error e)
    then show ?thesis by (simp add: runMethods_error)
  next
    case skip
    then show ?thesis using Cons.IH[OF later] by (simp add: runMethods_skip)
  next
    case run
    define r where "r = tRun i (Name m) (subTest S i m) st"
    have su: "onHandle h (trace (snd r)) = onHandle h (trace st)"
      unfolding r_def by (rule tRun_subTest_onHandle_other[OF here])
    show ?thesis
    proof (cases "fst r = Panics")
      case True
      then show ?thesis using su runMethods_crash[OF run, of i S st ms] by (simp add: r_def)
    next
      case False
      then show ?thesis using su runMethods_next[OF run, of i S st ms]
          Cons.IH[OF later, of "Suite_SetT SuiteT (snd r)"] by (simp add: r_def)
    qed
  qed
qed

lemma onHandle_andThen_SetT [simp]:
  "onHandle h (trace (snd (andThen r (\<lambda>st. (out, Suite_SetT h' st))))) = onHandle h (trace (snd r))"
  by (cases "fst r = Returns") (simp_all add: andThen_returned andThen_stopped)

lemma subTest_onHandle_own:
  assumes "hooksAroundBodyReturn S"
  shows "onHandle (TestT i) (trace (snd (subTest S i m st))) =
           onHandle (TestT i) (trace st) @ testSequence S i m"
proof -
  have 1: "\<And>st. fst (invokeOpt SetupTestCall (SetupTest S) st) = Returns"
    using assms by (simp add: hooksAroundBodyReturn_def invokeOpt_returns)
  have 2: "\<And>st. fst (invokeOpt (BeforeTestCall (ElemName S) (Name m))
                (map_option (\<lambda>f. f (ElemName S) (Name m)) (BeforeTest S)) st) = Returns"
    using assms by (simp add: hooksAroundBodyReturn_def invokeOpt_returns2)
  have 3: "\<And>st. fst (invokeOpt (AfterTestCall (ElemName S) (Name m))
                (map_option (\<lambda>f. f (ElemName S) (Name m)) (AfterTest S)) st) = Returns"
    using assms by (simp add: hooksAroundBodyReturn_def invokeOpt_returns2)
  show ?thesis
    by (simp add: subTest_def testDeferred_def andThen_returned 1 2 3 testSequence_def)
qed

lemma andThen_no_panic:
  "fst r \<noteq> Panics \<Longrightarrow> (\<And>st. fst (k st) \<noteq> Panics) \<Longrightarrow> fst (andThen r k) \<noteq> Panics"
  by (cases "fst r = Returns") (simp_all add: andThen_returned andThen_stopped)

lemma withDefer_no_panic:
  "fst r \<noteq> Panics \<Longrightarrow> (\<And>st. fst (d st) \<noteq> Panics) \<Longrightarrow> fst (withDefer d r) \<noteq> Panics"
  by (simp add: fst_withDefer)

lemma callMethod_no_panic: "bodyNeverPanics m \<Longrightarrow> fst (callMethod i m st) \<noteq> Panics"
  by (simp add: bodyNeverPanics_def neverPanics_def)

lemma testDeferred_no_panic:
  assumes "testHooksNeverPanic S"
  shows "fst (testDeferred S m st) \<noteq> Panics"
  unfolding testDeferred_def using assms
  by (intro andThen_no_panic invokeOpt_no_panic invokeOpt_no_panic2)
     (simp_all add: testHooksNeverPanic_def)

lemma subTest_no_panic:
  assumes "testHooksNeverPanic S" and "bodyNeverPanics m"
  shows "fst (subTest S i m st) \<noteq> Panics"
  unfolding subTest_def using assms
  by (intro andThen_no_panic withDefer_no_panic invokeOpt_no_panic invokeOpt_no_panic2
        callMethod_no_panic testDeferred_no_panic)
     (simp_all add: testHooksNeverPanic_def)

lemma returns_never_panics:
  "hookReturns hook \<Longrightarrow> hookNeverPanics hook"
  "hook2Returns hook2 \<Longrightarrow> hook2NeverPanics hook2"
  by (auto simp: hookReturns_def hookNeverPanics_def hook2Returns_def hook2NeverPanics_def
      returnsNormally_def neverPanics_def)

lemma testHooksNeverPanicI:
  "hooksAroundBodyReturn S \<Longrightarrow> hookNeverPanics (TearDownTest S) \<Longrightarrow> testHooksNeverPanic S"
  by (simp add: hooksAroundBodyReturn_def testHooksNeverPanic_def returns_never_panics)

lemma runMethods_onHandle_at:
  assumes "k < length ms" and "selected re p (ms ! k)"
    and "hooksAroundBodyReturn S" and "hookNeverPanics (TearDownTest S)"
    and "\<forall>k'<k. snd (methodFilter re p (Name (ms ! k'))) = None \<and>
           (selected re p (ms ! k') \<longrightarrow> bodyNeverPanics (ms ! k'))"
  shows "onHandle (TestT (i + k)) (trace (snd (runMethods re p S i ms st))) =
           onHandle (TestT (i + k)) (trace st) @ testSequence S (i + k) (ms ! k)"
  using assms(1,2,5)
proof (induction ms arbitrary: i k st)
  case Nil
  then show ?case by simp
next
  case (Cons m ms)
  note quiet = testHooksNeverPanicI[OF assms(3,4)]
  define r where "r = tRun i (Name m) (subTest S i m) st"
  show ?case
  proof (cases k)
    case 0
    then have run: "methodFilter re p (Name m) = (True, None)"
      using Cons.prems(2) by (simp add: selected_def)
    have own: "onHandle (TestT i) (trace (snd r)) = onHandle (TestT i) (trace st) @ testSequence S i m"
      by (simp add: r_def tRun_def subTest_onHandle_own[OF assms(3)])
    show ?thesis
    proof (cases "fst r = Panics")
      case True
      then show ?thesis using own 0 runMethods_crash[OF run, of i S st ms] by (simp add: r_def)
    next
      case False
      have "onHandle (TestT i) (trace (snd (runMethods re p S (Suc i) ms (Suite_SetT SuiteT (snd r))))) =
            onHandle (TestT i) (trace (Suite_SetT SuiteT (snd r)))"
        by (rule runMethods_onHandle_other) simp
      then show ?thesis using False own 0 runMethods_next[OF run, of i S st ms] by (simp add: r_def)
    qed
  next
    case (Suc k')
    have head: "snd (methodFilter re p (Name m)) = None" "selected re p m \<longrightarrow> bodyNeverPanics m"
      using Cons.prems(3) Suc by auto
    have rest: "k' < length ms" "selected re p (ms ! k')"
      "\<forall>j<k'. snd (methodFilter re p (Name (ms ! j))) = None \<and>
           (selected re p (ms ! j) \<longrightarrow> bodyNeverPanics (ms ! j))"
      using Cons.prems Suc by auto
    have idx: "i + k = Suc i + k'" "(m # ms) ! k = ms ! k'" using Suc by simp_all
    show ?thesis
    proof (cases rule: methodFilter_cases[of re p "Name m"])
      case (error e)
      then show ?thesis using head by simp
    next
      case skip
      then show ?thesis using Cons.IH[OF rest, of "Suc i" st] idx by (simp add: runMethods_skip)
    next
      case run
      have "bodyNeverPanics m" using head(2) run by (simp add: selected_def)
      then have np: "fst r \<noteq> Panics"
        by (simp add: r_def tRun_def subTest_no_panic[OF quiet])
      have "onHandle (TestT (i + k)) (trace (snd r)) = onHandle (TestT (i + k)) (trace st)"
        unfolding r_def by (rule tRun_subTest_onHandle_other) (simp add: Suc)
      then show ?thesis
        using np runMethods_next[OF run, of i S st ms]
          Cons.IH[OF rest, of "Suc i" "Suite_SetT SuiteT (snd r)"] idx
        by (simp add: r_def)
    qed
  qed
qed

lemma Run_onHandle_test:
  assumes "hookReturns (SetupSuite S)"
  shows "onHandle (TestT j) (trace (snd (Run re p S s))) =
         onHandle (TestT j) (trace (snd (runMethods re p S 0 (Methods S)
           (snd (invokeOpt SetupSuiteCall (SetupSuite S) (Suite_SetT SuiteT (newSuite s)))))))"
proof -
  define r where "r = invokeOpt SetupSuiteCall (SetupSuite S) (Suite_SetT SuiteT (newSuite s))"
  define r2 where "r2 = runMethods re p S 0 (Methods S) (snd r)"
  have 1: "fst r = Returns" using assms by (simp add: r_def invokeOpt_returns)
  show ?thesis
  proof (cases "fst r2 = Returned")
    case True
    then show ?thesis using 1 Run_completes[of S s re p]
      by (simp add: r_def r2_def suiteDeferred_def)
  next
    case False
    then show ?thesis using 1 Run_loop_stops[of S s re p] by (simp add: r_def r2_def)
  qed
qed

lemma Run_testSequence:
  assumes "j < length (Methods S)" and "selected re p (Methods S ! j)"
    and "hookReturns (SetupSuite S)"
    and "hooksAroundBodyReturn S" and "hookNeverPanics (TearDownTest S)"
    and "\<forall>k<j. snd (methodFilter re p (Name (Methods S ! k))) = None \<and>
           (selected re p (Methods S ! k) \<longrightarrow> bodyNeverPanics (Methods S ! k))"
  shows "onHandle (TestT j) (trace (snd (Run re p S s))) = testSequence S j (Methods S ! j)"
proof -
  define st1 where "st1 = snd (invokeOpt SetupSuiteCall (SetupSuite S) (Suite_SetT SuiteT (newSuite s)))"
  have "onHandle (TestT j) (trace st1) = []"
    by (simp add: st1_def newSuite_def)
  then show ?thesis
    using runMethods_onHandle_at[OF assms(1,2,4,5,6), of 0 st1] Run_onHandle_test[OF assms(3), of j re p s]
    by (simp add: st1_def)
qed


subsection \<open>The order of the hooks of one test\<close>


lemma suiteTester_hooks:
  "hookReturns (SetupSuite suiteTester)" "hooksAroundBodyReturn suiteTester"
  "hookNeverPanics (TearDownTest suiteTester)" "hookReturns (TearDownSuite suiteTester)"
  by (simp_all add: hookReturns_def hook2Returns_def hookNeverPanics_def hooksAroundBodyReturn_def
      returnsNormally_def neverPanics_def suiteTester_defs)









subsection \<open>Runs in which nothing panics\<close>

lemma runMethods_returns:
  assumes "testHooksNeverPanic S"
    and "\<forall>m \<in> set ms. snd (methodFilter re p (Name m)) = None \<and>
           (selected re p m \<longrightarrow> bodyNeverPanics m)"
  shows "fst (runMethods re p S i ms st) = Returned"
  using assms(2)
proof (induction ms arbitrary: i st)
  case Nil
  then show ?case by simp
next
  case (Cons m ms)
  have head: "snd (methodFilter re p (Name m)) = None" "selected re p m \<longrightarrow> bodyNeverPanics m"
    using Cons.prems by simp_all
  have rest: "\<forall>m \<in> set ms. snd (methodFilter re p (Name m)) = None \<and>
           (selected re p m \<longrightarrow> bodyNeverPanics m)"
    using Cons.prems by simp
  show ?case
  proof (cases rule: methodFilter_cases[of re p "Name m"])
    case (error e)
    then show ?thesis using head by simp
  next
    case skip
    then show ?thesis using Cons.IH[OF rest] by (simp add: runMethods_skip)
  next
    case run
    have "bodyNeverPanics m" using head(2) run by (simp add: selected_def)
    then have "fst (tRun i (Name m) (subTest S i m) st) \<noteq> Panics"
      by (simp add: tRun_def subTest_no_panic[OF assms(1)])
    then show ?thesis using runMethods_next[OF run, of i S st ms] Cons.IH[OF rest] by simp
  qed
qed

lemma Run_onHandle_suite:
  assumes "hookReturns (SetupSuite S)"
    and "fst (runMethods re p S 0 (Methods S)
           (snd (invokeOpt SetupSuiteCall (SetupSuite S) (Suite_SetT SuiteT (newSuite s))))) = Returned"
  shows "onHandle SuiteT (trace (snd (Run re p S s))) =
           hookCall SetupSuiteCall (SetupSuite S) SuiteT @
           hookCall TearDownSuiteCall (TearDownSuite S) SuiteT"
proof -
  define r where "r = invokeOpt SetupSuiteCall (SetupSuite S) (Suite_SetT SuiteT (newSuite s))"
  define r2 where "r2 = runMethods re p S 0 (Methods S) (snd r)"
  have 1: "fst r = Returns" using assms(1) by (simp add: r_def invokeOpt_returns)
  have 2: "fst r2 = Returned" using assms(2) by (simp add: r_def r2_def)
  have "onHandle SuiteT (trace (snd r2)) = onHandle SuiteT (trace (snd r))"
    unfolding r2_def by (rule runMethods_onHandle_other) simp
  moreover have "suite_t (snd r2) = suite_t (snd r2)" ..
  ultimately show ?thesis using 1 2 Run_completes[of S s re p]
    by (simp add: r_def r2_def suiteDeferred_def newSuite_def)
qed

lemma Run_returns_subUnits:
  assumes "hookReturns (SetupSuite S)"
    and "fst (runMethods re p S 0 (Methods S)
           (snd (invokeOpt SetupSuiteCall (SetupSuite S) (Suite_SetT SuiteT (newSuite s))))) = Returned"
  shows "subUnits (trace (snd (Run re p S s))) = selectedFrom re p 0 (Methods S)"
proof -
  define r where "r = invokeOpt SetupSuiteCall (SetupSuite S) (Suite_SetT SuiteT (newSuite s))"
  define r2 where "r2 = runMethods re p S 0 (Methods S) (snd r)"
  have 1: "fst r = Returns" using assms(1) by (simp add: r_def invokeOpt_returns)
  have 2: "fst r2 = Returned" using assms(2) by (simp add: r_def r2_def)
  have "subUnits (trace (snd r2)) = subUnits (trace (snd r)) @ selectedFrom re p 0 (Methods S)"
    unfolding r2_def using 2 by (intro runMethods_subUnits) (simp add: r2_def)
  then show ?thesis using 1 2 Run_completes[of S s re p]
    by (simp add: r_def r2_def suiteDeferred_def newSuite_def)
qed

lemma Invoke_onHandle: "Invoke c h \<in> set tr \<longleftrightarrow> Invoke c h \<in> set (onHandle h tr)"
  by (induction h tr rule: onHandle.induct) auto

lemma Fatalf_runEvent:
  "runEvent re p S (Fatalf h msg) \<Longrightarrow>
   \<exists>k. h = TestT k \<and> selectedAt re p S k \<and> NumIn (Methods S ! k) \<noteq> 1"
  by (cases h) simp_all

lemma suiteWithBadSignature_hooks:
  "hookReturns (SetupSuite suiteWithBadSignature)" "hooksAroundBodyReturn suiteWithBadSignature"
  "hookNeverPanics (TearDownTest suiteWithBadSignature)"
  by (simp_all add: hookReturns_def hook2Returns_def hookNeverPanics_def hooksAroundBodyReturn_def
      suiteWithBadSignature_def)

text \<open>
  Claim C4. Take a selected method with a parameter beyond the receiver, in a run where
  \<^verbatim>\<open>SetupSuite\<close>, \<^verbatim>\<open>SetupTest\<close>, \<^verbatim>\<open>BeforeTest\<close> and \<^verbatim>\<open>AfterTest\<close> return, the pattern is valid and
  no user code panics. On the handle of its sub-test \<^verbatim>\<open>Run\<close> calls \<^verbatim>\<open>Fatalf\<close> with a message
  that contains \<^verbatim>\<open>too many arguments to method\<close> followed by the method's name, between the
  hooks, and never the method itself. \<^verbatim>\<open>Run\<close> calls \<^verbatim>\<open>Fatalf\<close> on no sub-test of a method
  without parameters; every selected method is registered as a sub-unit and runs its own
  sequence; and \<^verbatim>\<open>TearDownSuite\<close> (when implemented) runs once, after \<^verbatim>\<open>SetupSuite\<close>.
\<close>

theorem bad_signature_fails_alone:
  assumes "j < length (Methods S)" and "selected re p (Methods S ! j)"
    and "NumIn (Methods S ! j) \<noteq> 1"
    and "hookReturns (SetupSuite S)"
    and "hooksAroundBodyReturn S" and "hookNeverPanics (TearDownTest S)"
    and "\<forall>m \<in> set (Methods S). snd (methodFilter re p (Name m)) = None \<and>
           (selected re p m \<longrightarrow> bodyNeverPanics m)"
  shows "onHandle (TestT j) (trace (snd (Run re p S s))) =
           hookCall SetupTestCall (SetupTest S) (TestT j) @
           hookCall (BeforeTestCall (ElemName S) (Name (Methods S ! j))) (BeforeTest S) (TestT j) @
           [Fatalf (TestT j) (''suite: too many arguments to method '' @ Name (Methods S ! j))] @
           hookCall (AfterTestCall (ElemName S) (Name (Methods S ! j))) (AfterTest S) (TestT j) @
           hookCall TearDownTestCall (TearDownTest S) (TestT j) \<and>
         sublist (''too many arguments to method '' @ Name (Methods S ! j))
           (''suite: too many arguments to method '' @ Name (Methods S ! j)) \<and>
         Invoke (MethodCall (Name (Methods S ! j))) (TestT j) \<notin> set (trace (snd (Run re p S s))) \<and>
         (\<forall>h msg. Fatalf h msg \<in> set (trace (snd (Run re p S s))) \<longrightarrow>
            (\<exists>k. h = TestT k \<and> selectedAt re p S k \<and> NumIn (Methods S ! k) \<noteq> 1)) \<and>
         subUnits (trace (snd (Run re p S s))) = selectedFrom re p 0 (Methods S) \<and>
         (\<forall>k<length (Methods S). selected re p (Methods S ! k) \<longrightarrow>
            onHandle (TestT k) (trace (snd (Run re p S s))) = testSequence S k (Methods S ! k)) \<and>
         onHandle SuiteT (trace (snd (Run re p S s))) =
           hookCall SetupSuiteCall (SetupSuite S) SuiteT @
           hookCall TearDownSuiteCall (TearDownSuite S) SuiteT"
proof -
  let ?tr = "trace (snd (Run re p S s))"
  let ?m = "Methods S ! j"
  have quiet: "testHooksNeverPanic S" by (rule testHooksNeverPanicI[OF assms(5,6)])
  have below: "\<And>k. k < length (Methods S) \<Longrightarrow>
      \<forall>k'<k. snd (methodFilter re p (Name (Methods S ! k'))) = None \<and>
           (selected re p (Methods S ! k') \<longrightarrow> bodyNeverPanics (Methods S ! k'))"
    using assms(7) by (meson nth_mem order.strict_trans)
  have seq: "\<And>k. k < length (Methods S) \<Longrightarrow> selected re p (Methods S ! k) \<Longrightarrow>
      onHandle (TestT k) ?tr = testSequence S k (Methods S ! k)"
    using Run_testSequence[OF _ _ assms(4,5,6) below] by blast
  have own: "onHandle (TestT j) ?tr =
           hookCall SetupTestCall (SetupTest S) (TestT j) @
           hookCall (BeforeTestCall (ElemName S) (Name ?m)) (BeforeTest S) (TestT j) @
           [Fatalf (TestT j) (''suite: too many arguments to method '' @ Name ?m)] @
           hookCall (AfterTestCall (ElemName S) (Name ?m)) (AfterTest S) (TestT j) @
           hookCall TearDownTestCall (TearDownTest S) (TestT j)"
    using seq[OF assms(1,2)] assms(3) by (simp add: testSequence_def bodyEvent_def)
  have sub: "sublist (''too many arguments to method '' @ Name ?m)
           (''suite: too many arguments to method '' @ Name ?m)"
    unfolding sublist_def by (intro exI[of _ "''suite: ''"] exI[of _ "[]"]) simp
  have no_call: "Invoke (MethodCall (Name ?m)) (TestT j) \<notin> set ?tr"
    unfolding Invoke_onHandle[of _ "TestT j" ?tr] own
    by (cases "SetupTest S"; cases "BeforeTest S"; cases "AfterTest S"; cases "TearDownTest S")
       (simp_all add: hookCall_def)
  have "list_all (runEvent re p S) ?tr"
    using Run_wellFormed[of re p S s] by (simp add: wellFormed_def)
  then have fatal: "\<forall>h msg. Fatalf h msg \<in> set ?tr \<longrightarrow>
            (\<exists>k. h = TestT k \<and> selectedAt re p S k \<and> NumIn (Methods S ! k) \<noteq> 1)"
    using Fatalf_runEvent[of re p S] by (auto simp: list_all_iff)
  have ret: "fst (runMethods re p S 0 (Methods S)
           (snd (invokeOpt SetupSuiteCall (SetupSuite S) (Suite_SetT SuiteT (newSuite s))))) = Returned"
    by (rule runMethods_returns[OF quiet assms(7)])
  show ?thesis
    using own sub no_call fatal Run_returns_subUnits[OF assms(4) ret] seq
      Run_onHandle_suite[OF assms(4) ret]
    by blast
qed

theorem bad_signature_fails_alone_witness:
  "3 < length (Methods suiteWithBadSignature) \<and>
   selected literalMatchString [] (Methods suiteWithBadSignature ! 3) \<and>
   NumIn (Methods suiteWithBadSignature ! 3) \<noteq> 1 \<and>
   onHandle (TestT 3) (trace (snd (Run literalMatchString [] suiteWithBadSignature ()))) =
     [Fatalf (TestT 3) ''suite: too many arguments to method TestSomethingWithBadSignature''] \<and>
   subUnits (trace (snd (Run literalMatchString [] suiteWithBadSignature ()))) =
     [(2, ''TestSomeOtherTestShouldRunAnyway''), (3, ''TestSomethingWithBadSignature'')] \<and>
   onHandle (TestT 2) (trace (snd (Run literalMatchString [] suiteWithBadSignature ()))) =
     [Invoke (MethodCall ''TestSomeOtherTestShouldRunAnyway'') (TestT 2)]"
proof -
  have 1: "3 < length (Methods suiteWithBadSignature)" "2 < length (Methods suiteWithBadSignature)"
    by (simp_all add: suiteWithBadSignature_def)
  have 2: "selected literalMatchString [] (Methods suiteWithBadSignature ! 3)"
    "selected literalMatchString [] (Methods suiteWithBadSignature ! 2)"
    by (simp_all add: suiteWithBadSignature_def selected_def methodFilter_def matchTestPrefix_def
        literalMatchString_def)
  have 3: "NumIn (Methods suiteWithBadSignature ! 3) \<noteq> 1" by (simp add: suiteWithBadSignature_def)
  have 4: "\<forall>m \<in> set (Methods suiteWithBadSignature).
      snd (methodFilter literalMatchString [] (Name m)) = None \<and>
           (selected literalMatchString [] m \<longrightarrow> bodyNeverPanics m)"
    by (simp add: suiteWithBadSignature_def methodFilter_def matchTestPrefix_def
        literalMatchString_def bodyNeverPanics_def neverPanics_def noEffect_def)
  have 5: "selectedFrom literalMatchString [] 0 (Methods suiteWithBadSignature) =
      [(2, ''TestSomeOtherTestShouldRunAnyway''), (3, ''TestSomethingWithBadSignature'')]"
    by (simp add: suiteWithBadSignature_def selectedFrom_def literalMatchString_def
        upt_conv_Cons del: upt_Suc)
  have 6: "testSequence suiteWithBadSignature 2 (Methods suiteWithBadSignature ! 2) =
      [Invoke (MethodCall ''TestSomeOtherTestShouldRunAnyway'') (TestT 2)]"
    by (simp add: testSequence_def suiteWithBadSignature_def hookCall_def bodyEvent_def)
  show ?thesis
    using bad_signature_fails_alone[OF 1(1) 2(1) 3 suiteWithBadSignature_hooks 4, of "()"] 1 2 3 5 6
    by (simp add: suiteWithBadSignature_def hookCall_def)
qed


subsection \<open>The handle at the end\<close>









text \<open>
  What the last part of C5 leaves out: a panic inside a hook. The sub-test of \<^verbatim>\<open>TestOne\<close>
  sets the handle, \<^verbatim>\<open>SetupTest\<close> panics before line 63 has deferred anything, and the panic
  ends the process with the handle of the sub-test still in place.
\<close>

lemma hook_panic_ends_the_process:
  "fst (Run literalMatchString [] suiteTesterPanickingSetup newSuiteTester) = Crashed \<and>
   suite_t (snd (Run literalMatchString [] suiteTesterPanickingSetup newSuiteTester)) = TestT 9 \<and>
   trace (snd (Run literalMatchString [] suiteTesterPanickingSetup newSuiteTester)) =
     [SetTEv SuiteT, Invoke SetupSuiteCall SuiteT, SubRun 9 ''TestOne'', SetTEv (TestT 9),
      Invoke SetupTestCall (TestT 9)]"
  by (simp add: run_defs suiteTesterPanickingSetup_def suiteTester_defs callsPanic_def)


subsection \<open>Suites without test methods\<close>

lemma methodFilter_no_prefix:
  "\<not> prefix ''Test'' n \<Longrightarrow> methodFilter re p n = (False, None)"
  by (simp add: methodFilter_def matchTestPrefix_def)

lemma runMethods_no_tests:
  "\<forall>m \<in> set ms. \<not> prefix ''Test'' (Name m) \<Longrightarrow> runMethods re p S i ms st = (Returned, st)"
proof (induction ms arbitrary: i)
  case Nil
  show ?case by simp
next
  case (Cons m ms)
  then show ?case by (simp add: runMethods_skip[OF methodFilter_no_prefix])
qed

text \<open>
  Claim C9. For a name that does not begin with \<^verbatim>\<open>Test\<close> the filter returns \<^verbatim>\<open>(false, nil)\<close>
  whatever the matcher and the pattern are: the pattern is not looked at. So a run over a
  suite without a method that begins with \<^verbatim>\<open>Test\<close>, whose \<^verbatim>\<open>SetupSuite\<close> and \<^verbatim>\<open>TearDownSuite\<close>
  return, returns after exactly these two calls (each when implemented), for every
  pattern, the invalid ones included.
\<close>

theorem no_test_method_no_pattern:
  "(\<not> prefix ''Test'' n \<longrightarrow> methodFilter re p n = (False, None)) \<and>
   ((\<forall>m \<in> set (Methods S). \<not> prefix ''Test'' (Name m)) \<and>
    hookReturns (SetupSuite S) \<and> hookReturns (TearDownSuite S) \<longrightarrow>
      fst (Run re p S s) = Returned \<and>
      trace (snd (Run re p S s)) =
        [SetTEv SuiteT] @ hookCall SetupSuiteCall (SetupSuite S) SuiteT @
        [SetTEv SuiteT] @ hookCall TearDownSuiteCall (TearDownSuite S) SuiteT)"
proof (intro conjI impI)
  show "\<not> prefix ''Test'' n \<Longrightarrow> methodFilter re p n = (False, None)"
    by (rule methodFilter_no_prefix)
next
  assume a: "(\<forall>m \<in> set (Methods S). \<not> prefix ''Test'' (Name m)) \<and>
    hookReturns (SetupSuite S) \<and> hookReturns (TearDownSuite S)"
  define r where "r = invokeOpt SetupSuiteCall (SetupSuite S) (Suite_SetT SuiteT (newSuite s))"
  have 1: "fst r = Returns" using a by (simp add: r_def invokeOpt_returns)
  have 2: "runMethods re p S 0 (Methods S) (snd r) = (Returned, snd r)"
    using a runMethods_no_tests by blast
  have 3: "fst (suiteDeferred S (snd r)) = Returns"
    using a by (simp add: suiteDeferred_def invokeOpt_returns)
  have eq: "Run re p S s =
      (goroutineEnd (fst (suiteDeferred S (snd r))), snd (suiteDeferred S (snd r)))"
    using Run_completes[of S s re p] 1 2 by (simp add: r_def)
  show "fst (Run re p S s) = Returned" using eq 3 by (simp add: goroutineEnd_def)
  show "trace (snd (Run re p S s)) =
        [SetTEv SuiteT] @ hookCall SetupSuiteCall (SetupSuite S) SuiteT @
        [SetTEv SuiteT] @ hookCall TearDownSuiteCall (TearDownSuite S) SuiteT"
    using eq by (simp add: suiteDeferred_def r_def newSuite_def)
qed

theorem no_test_method_no_pattern_witness:
  "filter (\<lambda>m. prefix ''Test'' (Name m)) (Methods suiteTesterWithoutTests) = [] \<and>
   snd (literalMatchString ''('' ''TestOne'') \<noteq> None \<and>
   methodFilter literalMatchString ''('' ''NonTestMethod'' = (False, None) \<and>
   fst (Run literalMatchString ''('' suiteTesterWithoutTests newSuiteTester) = Returned \<and>
   trace (snd (Run literalMatchString ''('' suiteTesterWithoutTests newSuiteTester)) =
     [SetTEv SuiteT, Invoke SetupSuiteCall SuiteT, SetTEv SuiteT, Invoke TearDownSuiteCall SuiteT]"
proof -
  have 0: "filter (\<lambda>m. prefix ''Test'' (Name m)) (Methods suiteTesterWithoutTests) = []"
    by (simp add: suiteTesterWithoutTests_def suiteTester_def)
  then have 1: "\<forall>m \<in> set (Methods suiteTesterWithoutTests). \<not> prefix ''Test'' (Name m)"
    by (simp add: filter_empty_conv)
  have 2: "hookReturns (SetupSuite suiteTesterWithoutTests)" "hookReturns (TearDownSuite suiteTesterWithoutTests)"
    using suiteTester_hooks by (simp_all add: suiteTesterWithoutTests_def)
  have 3: "snd (literalMatchString ''('' ''TestOne'') \<noteq> None" by (simp add: literalMatchString_def)
  have 4: "SetupSuite suiteTesterWithoutTests \<noteq> None" "TearDownSuite suiteTesterWithoutTests \<noteq> None"
    by (simp_all add: suiteTesterWithoutTests_def suiteTester_def)
  show ?thesis
    using no_test_method_no_pattern[of "''NonTestMethod''" literalMatchString "''(''"
        suiteTesterWithoutTests newSuiteTester] 0 1 2 3 4
    by (auto simp: hookCall_def)
qed

subsection \<open>The exit on an invalid pattern\<close>








subsection \<open>An invalid pattern is found after the set-up of the suite\<close>

text \<open>
  Claim C6 says that the error of an invalid pattern is detected on the first method
  evaluated and surfaces before any suite set-up. On \<^verbatim>\<open>SuiteTester\<close> with the pattern \<^verbatim>\<open>(\<close>,
  the first method evaluated (\<^verbatim>\<open>AfterTest\<close>) gives no error, and \<^verbatim>\<open>SetupSuite\<close> has run when the
  error is written.
\<close>

theorem pattern_error_before_setup_counterexample:
  "methodFilter literalMatchString ''('' (Name (Methods suiteTester ! 0)) = (False, None) \<and>
   trace (snd (Run literalMatchString ''('' suiteTester newSuiteTester)) =
     [SetTEv SuiteT, Invoke SetupSuiteCall SuiteT,
      Stderr (exitMessage ''error parsing regexp: missing closing ): `(`''), Exit 1] \<and>
   SetupSuiteRunCount (suite_fields (snd (Run literalMatchString ''('' suiteTester newSuiteTester))) = 1"
  by (simp add: run_defs suiteTester_defs)

lemma runMethods_invalid_pattern:
  assumes "\<forall>n. re p n = (False, Some err)" and "\<exists>m \<in> set ms. prefix ''Test'' (Name m)"
  shows "runMethods re p S i ms st =
           (Exited 1, st\<lparr>trace := trace st @ [Stderr (exitMessage err), Exit 1]\<rparr>)"
  using assms(2)
proof (induction ms arbitrary: i)
  case Nil
  then show ?case by simp
next
  case (Cons m ms)
  show ?case
  proof (cases "prefix ''Test'' (Name m)")
    case True
    then have "snd (methodFilter re p (Name m)) = Some err"
      using assms(1) by (simp add: methodFilter_def matchTestPrefix_def)
    then show ?thesis by (rule runMethods_error)
  next
    case False
    then have "\<exists>m \<in> set ms. prefix ''Test'' (Name m)" using Cons.prems by auto
    then show ?thesis using Cons.IH False by (simp add: runMethods_skip[OF methodFilter_no_prefix])
  qed
qed

text \<open>
  Claim C6, as the code has it. When the pattern does not compile and the suite has a
  method whose name begins with \<^verbatim>\<open>Test\<close>, \<^verbatim>\<open>Run\<close> ends the process with exit status 1. The
  error is found on the first such method (the methods before it get \<^verbatim>\<open>(false, nil)\<close> from the
  filter), after \<^verbatim>\<open>SetupSuite\<close> (when implemented) has run, and before any sub-unit is
  registered.
\<close>

theorem pattern_error_after_setup:
  assumes "\<forall>n. re p n = (False, Some err)"
    and "hookReturns (SetupSuite S)"
    and "\<exists>m \<in> set (Methods S). prefix ''Test'' (Name m)"
  shows "fst (Run re p S s) = Exited 1 \<and>
         trace (snd (Run re p S s)) =
           [SetTEv SuiteT] @ hookCall SetupSuiteCall (SetupSuite S) SuiteT @
           [Stderr (exitMessage err), Exit 1] \<and>
         (\<exists>pre m post. Methods S = pre @ m # post \<and>
            (\<forall>x \<in> set pre. methodFilter re p (Name x) = (False, None)) \<and>
            methodFilter re p (Name m) = (False, Some err))"
proof -
  define r where "r = invokeOpt SetupSuiteCall (SetupSuite S) (Suite_SetT SuiteT (newSuite s))"
  have 1: "fst r = Returns" using assms(2) by (simp add: r_def invokeOpt_returns)
  have 2: "runMethods re p S 0 (Methods S) (snd r) =
      (Exited 1, (snd r)\<lparr>trace := trace (snd r) @ [Stderr (exitMessage err), Exit 1]\<rparr>)"
    using runMethods_invalid_pattern[where re = re and p = p and err = err and ms = "Methods S"
        and S = S and i = 0 and st = "snd r"] assms(1,3) by blast
  have eq: "Run re p S s = (Exited 1, (snd r)\<lparr>trace := trace (snd r) @ [Stderr (exitMessage err), Exit 1]\<rparr>)"
    using Run_loop_stops[of S s re p] 1 2 by (simp add: r_def)
  from split_list_first_prop[OF assms(3)]
  obtain pre m post where sp: "Methods S = pre @ m # post" "prefix ''Test'' (Name m)"
    "\<forall>x \<in> set pre. \<not> prefix ''Test'' (Name x)" by blast
  have "methodFilter re p (Name m) = (False, Some err)"
    using sp(2) assms(1) by (simp add: methodFilter_def matchTestPrefix_def)
  moreover have "\<forall>x \<in> set pre. methodFilter re p (Name x) = (False, None)"
    using sp(3) by (simp add: methodFilter_no_prefix)
  ultimately have "\<exists>pre m post. Methods S = pre @ m # post \<and>
            (\<forall>x \<in> set pre. methodFilter re p (Name x) = (False, None)) \<and>
            methodFilter re p (Name m) = (False, Some err)"
    using sp(1) by blast
  then show ?thesis using eq by (simp add: r_def newSuite_def)
qed

theorem pattern_error_after_setup_witness:
  "(\<forall>n. literalMatchString ''('' n = (False, Some ''error parsing regexp: missing closing ): `(`'')) \<and>
   prefix ''Test'' (Name (Methods suiteTester ! 9)) \<and>
   fst (Run literalMatchString ''('' suiteTester newSuiteTester) = Exited 1 \<and>
   trace (snd (Run literalMatchString ''('' suiteTester newSuiteTester)) =
     [SetTEv SuiteT, Invoke SetupSuiteCall SuiteT,
      Stderr (exitMessage ''error parsing regexp: missing closing ): `(`''), Exit 1]"
proof -
  have 1: "\<forall>n. literalMatchString ''('' n = (False, Some ''error parsing regexp: missing closing ): `(`'')"
    by (simp add: literalMatchString_def)
  have 0: "prefix ''Test'' (Name (Methods suiteTester ! 9))" by (simp add: suiteTester_def)
  have 2: "\<exists>m \<in> set (Methods suiteTester). prefix ''Test'' (Name m)"
    by (simp add: suiteTester_def)
  have 3: "SetupSuite suiteTester \<noteq> None" by (simp add: suiteTester_def)
  show ?thesis
    using pattern_error_after_setup[where re = literalMatchString and p = "''(''"
        and err = "''error parsing regexp: missing closing ): `(`''" and S = suiteTester
        and s = newSuiteTester] 0 1 2 3 suiteTester_hooks(1)
    by (auto simp: hookCall_def)
qed

subsection \<open>A skip inside the set-up of the suite\<close>

text \<open>
  Claim C8 says that a skip inside the suite set-up does not keep the test sub-units from
  being registered. On \<^verbatim>\<open>SuiteSkipTester\<close> with a test method, the filter selects the method
  and the run registers no sub-unit.
\<close>

theorem skip_in_setup_counterexample:
  "selectedFrom literalMatchString [] 0 (Methods suiteSkipTesterWithTest) = [(4, ''TestAfterSkip'')] \<and>
   subUnits (trace (snd (Run literalMatchString [] suiteSkipTesterWithTest (0, 0)))) = [] \<and>
   fst (Run literalMatchString [] suiteSkipTesterWithTest (0, 0)) = Goexited"
  by (simp add: run_defs suiteSkipTesterWithTest_def suiteSkipTester_def SuiteSkipTester_SetupSuite_def
      selectedFrom_def upt_conv_Cons del: upt_Suc)

text \<open>
  Claim C8, as the code has it. A \<^verbatim>\<open>Skip\<close> inside \<^verbatim>\<open>SetupSuite\<close> stops the goroutine that runs
  \<^verbatim>\<open>Run\<close>, at that point: no sub-unit is registered and nothing runs on the handle of a
  sub-test.
\<close>

theorem skip_in_setup_ends_run:
  assumes "SetupSuite S = Some f" and "fst (f SuiteT s) = Goexits"
  shows "fst (Run re p S s) = Goexited \<and>
         subUnits (trace (snd (Run re p S s))) = [] \<and>
         (\<forall>c i. Invoke c (TestT i) \<notin> set (trace (snd (Run re p S s))))"
proof -
  define r where "r = invokeOpt SetupSuiteCall (SetupSuite S) (Suite_SetT SuiteT (newSuite s))"
  have 1: "fst r = Goexits" using assms by (simp add: r_def invokeOpt_def newSuite_def)
  then have eq: "Run re p S s = (goroutineEnd (fst r), snd r)"
    using Run_setup_stops[of S s re p] by (simp add: r_def)
  have tr: "trace (snd r) = [SetTEv SuiteT, Invoke SetupSuiteCall SuiteT]"
    using assms(1) by (simp add: r_def newSuite_def hookCall_def)
  show ?thesis using eq 1 tr by (simp add: goroutineEnd_def)
qed

theorem skip_in_setup_ends_run_witness:
  "SetupSuite suiteSkipTesterWithTest = Some SuiteSkipTester_SetupSuite \<and>
   fst (SuiteSkipTester_SetupSuite SuiteT (0, 0)) = Goexits \<and>
   fst (Run literalMatchString [] suiteSkipTesterWithTest (0, 0)) = Goexited \<and>
   subUnits (trace (snd (Run literalMatchString [] suiteSkipTesterWithTest (0, 0)))) = []"
proof -
  have 1: "SetupSuite suiteSkipTesterWithTest = Some SuiteSkipTester_SetupSuite"
    by (simp add: suiteSkipTesterWithTest_def suiteSkipTester_def)
  have 2: "fst (SuiteSkipTester_SetupSuite SuiteT (0, 0)) = Goexits"
    by (simp add: SuiteSkipTester_SetupSuite_def)
  show ?thesis
    using skip_in_setup_ends_run[OF 1 2, of literalMatchString "[]"] 1 2 by simp
qed

subsection \<open>The tear-down of the suite after a skip in its set-up\<close>

text \<open>
  Claim C2 says that \<^verbatim>\<open>SetupSuite\<close> and \<^verbatim>\<open>TearDownSuite\<close> run once each, also when \<^verbatim>\<open>SetupSuite\<close>
  skips. The run of \<^verbatim>\<open>SuiteSkipTester\<close>, the suite of the repository's own test of this,
  calls \<^verbatim>\<open>SetupSuite\<close> once and \<^verbatim>\<open>TearDownSuite\<close> never: the set-up count is 1 and the
  tear-down count stays 0.
\<close>

theorem skip_in_setup_skips_teardown:
  "Run literalMatchString [] suiteSkipTester (0, 0) =
     (Goexited,
      \<lparr>suite_t = SuiteT, suite_fields = (1, 0),
       trace = [SetTEv SuiteT, Invoke SetupSuiteCall SuiteT]\<rparr>)"
  by (simp add: run_defs suiteSkipTester_def SuiteSkipTester_SetupSuite_def)


end
